theory Spec2Isabelle
  imports Main "HOL-Library.Word"
begin

section \<open>JavaScript strings\<close>

text \<open>
  A JavaScript string is a sequence of 16-bit code units. The regular expressions of the
  program carry no \<open>u\<close> flag, so they match code unit by code unit, and every character
  they name lies in the Basic Multilingual Plane. \<open>js\<close> embeds an ASCII literal.
\<close>

type_synonym jschar = "16 word"
type_synonym jsstring = "jschar list"

definition js :: "string \<Rightarrow> jsstring" where
  "js s = map of_char s"

section \<open>The platform: ECMAScript time values\<close>

text \<open>
  The program computes with \<^verbatim>\<open>Date\<close> objects. A \<^verbatim>\<open>Date\<close> holds a time value, an integral
  number of milliseconds since the epoch, modelled as an \<open>int\<close>; the definitions below
  are the abstract operations of the ECMAScript specification (Day, DaysInYear,
  DayFromYear, YearFromTime, MonthFromTime, DateFromTime, MakeTime, MakeDay, MakeDate,
  LocalTime, UTC) under their own names. Two things are fixed here and stated once:
  \<^item> the host's time zone. ECMAScript leaves it to the host as LocalTZA(t, isUTC), the
    offset of local time in milliseconds at a time value \<open>t\<close> that is read as UTC or as
    local time. The Line Parser's strict date check depends on how that offset changes
    (a wall-clock time skipped by daylight saving does not read back), so the parser
    takes the whole function as its parameter \<open>zone\<close> (\<open>LocalTimeIn\<close>, \<open>UTCIn\<close>,
    \<open>newDateIn\<close> and the accessors ending in \<open>In\<close>). The day keys and the Day Splitter
    are modelled in a zone of constant offset \<open>tza\<close> (\<open>LocalTime\<close>, \<open>UTC\<close>, \<open>newDate\<close>
    and the accessors), which is the zone \<open>fixedOffset tza\<close>;
  \<^item> time values are not clipped: TimeClip only rejects values beyond 8.64e15 ms
    (year 275760), and the Line Parser admits years of at most four digits
    (\<open>parseLine_within_Date_range\<close> below); all the arithmetic stays well inside the
    range where JavaScript numbers are exact.
\<close>

definition msPerDay :: int where "msPerDay = 86400000"
definition msPerHour :: int where "msPerHour = 3600000"
definition msPerMinute :: int where "msPerMinute = 60000"
definition msPerSecond :: int where "msPerSecond = 1000"

definition Day :: "int \<Rightarrow> int" where "Day t = t div msPerDay"
definition TimeWithinDay :: "int \<Rightarrow> int" where "TimeWithinDay t = t mod msPerDay"

definition DaysInYear :: "int \<Rightarrow> int" where
  "DaysInYear y = (if y mod 4 \<noteq> 0 then 365 else if y mod 100 \<noteq> 0 then 366
                   else if y mod 400 \<noteq> 0 then 365 else 366)"

definition DayFromYear :: "int \<Rightarrow> int" where
  "DayFromYear y = 365 * (y - 1970) + (y - 1969) div 4 - (y - 1901) div 100 + (y - 1601) div 400"

text \<open>
  ECMAScript: YearFromTime(t) is the largest integer \<open>y\<close> such that TimeFromYear(y) \<le> t.
  \<open>YearFromDay\<close> computes it from an estimate that is off by at most one year
  (\<open>YearFromDay_bounds\<close> and \<open>YearFromDay_unique\<close> below show it is that largest \<open>y\<close>).
\<close>

definition YearFromDay :: "int \<Rightarrow> int" where
  "YearFromDay d = (let y = 1970 + (d * 400) div 146097 in
     if d < DayFromYear y then y - 1
     else if DayFromYear (y + 1) \<le> d then y + 1 else y)"

definition YearFromTime :: "int \<Rightarrow> int" where
  "YearFromTime t = YearFromDay (Day t)"

definition InLeapYear :: "int \<Rightarrow> int" where
  "InLeapYear t = (if DaysInYear (YearFromTime t) = 366 then 1 else 0)"

definition DayWithinYear :: "int \<Rightarrow> int" where
  "DayWithinYear t = Day t - DayFromYear (YearFromTime t)"

definition MonthFromTime :: "int \<Rightarrow> int" where
  "MonthFromTime t = (let d = DayWithinYear t; l = InLeapYear t in
     if d < 31 then 0
     else if d < 59 + l then 1
     else if d < 90 + l then 2
     else if d < 120 + l then 3
     else if d < 151 + l then 4
     else if d < 181 + l then 5
     else if d < 212 + l then 6
     else if d < 243 + l then 7
     else if d < 273 + l then 8
     else if d < 304 + l then 9
     else if d < 334 + l then 10
     else 11)"

definition DateFromTime :: "int \<Rightarrow> int" where
  "DateFromTime t = (let d = DayWithinYear t; l = InLeapYear t; m = MonthFromTime t in
     if m = 0 then d + 1
     else if m = 1 then d - 30
     else if m = 2 then d - 58 - l
     else if m = 3 then d - 89 - l
     else if m = 4 then d - 119 - l
     else if m = 5 then d - 150 - l
     else if m = 6 then d - 180 - l
     else if m = 7 then d - 211 - l
     else if m = 8 then d - 242 - l
     else if m = 9 then d - 272 - l
     else if m = 10 then d - 303 - l
     else d - 333 - l)"

definition HourFromTime :: "int \<Rightarrow> int" where
  "HourFromTime t = (t div msPerHour) mod 24"

definition MinFromTime :: "int \<Rightarrow> int" where
  "MinFromTime t = (t div msPerMinute) mod 60"

definition MakeTime :: "int \<Rightarrow> int \<Rightarrow> int \<Rightarrow> int \<Rightarrow> int" where
  "MakeTime hour minute sec ms = hour * msPerHour + minute * msPerMinute + sec * msPerSecond + ms"

text \<open>
  The day within the year on which month \<open>mn\<close> (0 = January) starts, \<open>l\<close> being 1 in a
  leap year: the table MonthFromTime is written from.
\<close>

definition monthStart :: "int \<Rightarrow> int \<Rightarrow> int" where
  "monthStart l mn =
     (if mn = 0 then 0
      else if mn = 1 then 31
      else if mn = 2 then 59 + l
      else if mn = 3 then 90 + l
      else if mn = 4 then 120 + l
      else if mn = 5 then 151 + l
      else if mn = 6 then 181 + l
      else if mn = 7 then 212 + l
      else if mn = 8 then 243 + l
      else if mn = 9 then 273 + l
      else if mn = 10 then 304 + l
      else 334 + l)"

text \<open>
  ECMAScript MakeDay(year, month, date): the day number of the first day of month
  \<open>month mod 12\<close> of year \<open>year + month div 12\<close>, plus \<open>date - 1\<close>; a date beyond the
  end of the month rolls over into the following months.
\<close>

definition MakeDay :: "int \<Rightarrow> int \<Rightarrow> int \<Rightarrow> int" where
  "MakeDay year month date = (let ym = year + month div 12; mn = month mod 12 in
     DayFromYear ym + monthStart (if DaysInYear ym = 366 then 1 else 0) mn + date - 1)"

definition MakeDate :: "int \<Rightarrow> int \<Rightarrow> int" where
  "MakeDate day time = day * msPerDay + time"

definition LocalTime :: "int \<Rightarrow> int \<Rightarrow> int" where
  "LocalTime tza t = t + tza"

definition UTC :: "int \<Rightarrow> int \<Rightarrow> int" where
  "UTC tza t = t - tza"

text \<open>
  \<^verbatim>\<open>new Date(y, m, dt, h, mi, s, milli)\<close>: the fields are read as local time; a year from
  0 to 99 stands for 1900 + year. The result is the time value of the new object.
\<close>

definition newDate :: "int \<Rightarrow> int \<Rightarrow> int \<Rightarrow> int \<Rightarrow> int \<Rightarrow> int \<Rightarrow> int \<Rightarrow> int \<Rightarrow> int" where
  "newDate tza y m dt h mi s milli =
     (let yr = (if 0 \<le> y \<and> y \<le> 99 then 1900 + y else y) in
      UTC tza (MakeDate (MakeDay yr m dt) (MakeTime h mi s milli)))"

text \<open>The accessors \<^verbatim>\<open>getFullYear()\<close>, \<^verbatim>\<open>getMonth()\<close>, \<^verbatim>\<open>getDate()\<close>, \<^verbatim>\<open>getHours()\<close> and
  \<^verbatim>\<open>getMinutes()\<close> read a time value in local time.\<close>

definition getFullYear :: "int \<Rightarrow> int \<Rightarrow> int" where
  "getFullYear tza t = YearFromTime (LocalTime tza t)"
definition getMonth :: "int \<Rightarrow> int \<Rightarrow> int" where
  "getMonth tza t = MonthFromTime (LocalTime tza t)"
definition getDate :: "int \<Rightarrow> int \<Rightarrow> int" where
  "getDate tza t = DateFromTime (LocalTime tza t)"
definition getHours :: "int \<Rightarrow> int \<Rightarrow> int" where
  "getHours tza t = HourFromTime (LocalTime tza t)"
definition getMinutes :: "int \<Rightarrow> int \<Rightarrow> int" where
  "getMinutes tza t = MinFromTime (LocalTime tza t)"

text \<open>
  The same operations in a time zone given by its LocalTZA function:
  LocalTime(t) = t + LocalTZA(t, true) and UTC(t) = t - LocalTZA(t, false). A local time
  that daylight saving skips or repeats is read with the offset LocalTZA(t, false)
  gives it, which ECMAScript fixes as the one before the transition.
\<close>

type_synonym timeZone = "int \<Rightarrow> bool \<Rightarrow> int"

definition fixedOffset :: "int \<Rightarrow> timeZone" where
  "fixedOffset tza = (\<lambda>t isUTC. tza)"

definition LocalTimeIn :: "timeZone \<Rightarrow> int \<Rightarrow> int" where
  "LocalTimeIn zone t = t + zone t True"

definition UTCIn :: "timeZone \<Rightarrow> int \<Rightarrow> int" where
  "UTCIn zone t = t - zone t False"

definition newDateIn :: "timeZone \<Rightarrow> int \<Rightarrow> int \<Rightarrow> int \<Rightarrow> int \<Rightarrow> int \<Rightarrow> int \<Rightarrow> int \<Rightarrow> int" where
  "newDateIn zone y m dt h mi s milli =
     (let yr = (if 0 \<le> y \<and> y \<le> 99 then 1900 + y else y) in
      UTCIn zone (MakeDate (MakeDay yr m dt) (MakeTime h mi s milli)))"

definition getFullYearIn :: "timeZone \<Rightarrow> int \<Rightarrow> int" where
  "getFullYearIn zone t = YearFromTime (LocalTimeIn zone t)"
definition getMonthIn :: "timeZone \<Rightarrow> int \<Rightarrow> int" where
  "getMonthIn zone t = MonthFromTime (LocalTimeIn zone t)"
definition getDateIn :: "timeZone \<Rightarrow> int \<Rightarrow> int" where
  "getDateIn zone t = DateFromTime (LocalTimeIn zone t)"
definition getHoursIn :: "timeZone \<Rightarrow> int \<Rightarrow> int" where
  "getHoursIn zone t = HourFromTime (LocalTimeIn zone t)"
definition getMinutesIn :: "timeZone \<Rightarrow> int \<Rightarrow> int" where
  "getMinutesIn zone t = MinFromTime (LocalTimeIn zone t)"

text \<open>
  A zone with one daylight-saving change, that of the eastern United States in the
  spring of 2025: five hours behind UTC until 2025-03-09 07:00 UTC, four hours behind
  from then on. The local times from 02:00 to 03:00 of that day are skipped, and are
  read with the offset before the change.
\<close>

definition easternSpring2025 :: timeZone where
  "easternSpring2025 = (\<lambda>t isUTC.
     if isUTC then (if t < 1741503600000 then - 18000000 else - 14400000)
     else (if t < 1741489200000 then - 18000000 else - 14400000))"

text \<open>The number of days of month \<open>m\<close> (1 = January) of year \<open>y\<close> in the Gregorian calendar.\<close>

definition DaysInMonth :: "int \<Rightarrow> int \<Rightarrow> int" where
  "DaysInMonth y m =
     (if m = 2 then (if DaysInYear y = 366 then 29 else 28)
      else if m = 4 \<or> m = 6 \<or> m = 9 \<or> m = 11 then 30 else 31)"

section \<open>Calendar arithmetic\<close>

lemma div_step:
  assumes "1 < (c::int)"
  shows "(a + 1) div c = a div c + (if c dvd a + 1 then 1 else 0)"
proof -
  have r: "0 \<le> a mod c" "a mod c < c" using assms by simp_all
  show ?thesis
  proof (cases "a mod c + 1 = c")
    case True
    then have "a + 1 = c * (a div c) + c" using mult_div_mod_eq[of c a] by linarith
    then have f: "a + 1 = c * (a div c + 1)" by (simp add: distrib_left)
    have "c \<noteq> 0" using assms by simp
    then have "(a + 1) div c = a div c + 1" unfolding f by simp
    moreover have "c dvd a + 1" unfolding f by simp
    ultimately show ?thesis by simp
  next
    case False
    then have lt: "a mod c + 1 < c" using r by linarith
    have "a + 1 = c * (a div c) + (a mod c + 1)" using mult_div_mod_eq[of c a] by linarith
    then have d: "(a + 1) div c = a div c" and m: "(a + 1) mod c = a mod c + 1"
      using lt r int_div_pos_eq[of "a + 1" c "a div c" "a mod c + 1"]
        int_mod_pos_eq[of "a + 1" c "a div c" "a mod c + 1"] by simp_all
    have "(a + 1) mod c \<noteq> 0" using m r(1) by linarith
    then have "\<not> c dvd a + 1" by (simp add: dvd_eq_mod_eq_0)
    then show ?thesis using d by simp
  qed
qed

lemma dvd_shift: "(c::int) dvd k \<Longrightarrow> c dvd y - k \<longleftrightarrow> c dvd y"
  by (simp add: dvd_diff_left_iff)

lemma DayFromYear_Suc: "DayFromYear (y + 1) = DayFromYear y + DaysInYear y"
proof -
  have a: "(y + 1 - 1969) div 4 = (y - 1969) div 4 + (if 4 dvd y then 1 else 0)"
    using div_step[of 4 "y - 1969"] dvd_shift[of 4 1968 y] by simp
  have b: "(y + 1 - 1901) div 100 = (y - 1901) div 100 + (if 100 dvd y then 1 else 0)"
    using div_step[of 100 "y - 1901"] dvd_shift[of 100 1900 y] by simp
  have c: "(y + 1 - 1601) div 400 = (y - 1601) div 400 + (if 400 dvd y then 1 else 0)"
    using div_step[of 400 "y - 1601"] dvd_shift[of 400 1600 y] by simp
  have d1: "400 dvd y \<Longrightarrow> 100 dvd y" by (rule dvd_trans[of 100 400]) simp_all
  have d2: "100 dvd y \<Longrightarrow> 4 dvd y" by (rule dvd_trans[of 4 100]) simp_all
  show ?thesis
    unfolding DayFromYear_def DaysInYear_def a b c
    using d1 d2 by (auto simp add: algebra_simps mod_eq_0_iff_dvd)
qed

lemma DaysInYear_bounds: "365 \<le> DaysInYear y" "DaysInYear y \<le> 366"
  by (simp_all add: DaysInYear_def)

lemma DaysInYear_cases: "DaysInYear y = 365 \<or> DaysInYear y = 366"
  by (simp add: DaysInYear_def)

lemma DayFromYear_mono_aux: "0 \<le> k \<Longrightarrow> DayFromYear y + 365 * k \<le> DayFromYear (y + k)"
proof (induction k rule: int_ge_induct)
  case base
  then show ?case by simp
next
  case (step i)
  have "DayFromYear (y + (i + 1)) = DayFromYear (y + i) + DaysInYear (y + i)"
    using DayFromYear_Suc[of "y + i"] by (simp add: add.assoc)
  then show ?case using step DaysInYear_bounds(1)[of "y + i"] by (simp add: algebra_simps)
qed

lemma DayFromYear_mono: "y \<le> z \<Longrightarrow> DayFromYear y \<le> DayFromYear z"
  using DayFromYear_mono_aux[of "z - y" y] by simp

lemma div_lo: "0 < (c::int) \<Longrightarrow> c * (a div c) \<le> a"
  using pos_mod_sign[of c a] mult_div_mod_eq[of c a] by linarith

lemma div_hi: "0 < (c::int) \<Longrightarrow> a < c * (a div c) + c"
  using pos_mod_bound[of c a] mult_div_mod_eq[of c a] by linarith

lemma est_lo: "DayFromYear (1970 + (d * 400) div 146097 - 1) \<le> d"
proof -
  define q where "q = (d * 400) div 146097"
  define A where "A = q div 4"
  define B where "B = (q + 68) div 100"
  define C where "C = (q + 368) div 400"
  have q: "146097 * q \<le> 400 * d" unfolding q_def using div_lo[of 146097 "d * 400"] by simp
  have a: "400 * A \<le> 100 * q" unfolding A_def using div_lo[of 4 q] by simp
  have b: "4 * q + 272 < 400 * B + 400" unfolding B_def using div_hi[of 100 "q + 68"] by simp
  have c: "400 * C \<le> q + 368" unfolding C_def using div_lo[of 400 "q + 368"] by simp
  have e: "DayFromYear (1970 + q - 1) = 365 * q - 365 + A - B + C"
    unfolding DayFromYear_def A_def B_def C_def by (simp add: algebra_simps)
  have "400 * (365 * q - 365 + A - B + C) \<le> 400 * d"
    using q a b c by (simp add: algebra_simps)
  then show ?thesis unfolding q_def[symmetric] e by simp
qed

lemma est_hi: "d < DayFromYear (1970 + (d * 400) div 146097 + 2)"
proof -
  define q where "q = (d * 400) div 146097"
  define A where "A = (q + 3) div 4"
  define B where "B = (q + 71) div 100"
  define C where "C = (q + 371) div 400"
  have q: "400 * d < 146097 * q + 146097" unfolding q_def using div_hi[of 146097 "d * 400"] by simp
  have a: "100 * q + 300 < 400 * A + 400" unfolding A_def using div_hi[of 4 "q + 3"] by simp
  have b: "400 * B \<le> 4 * q + 284" unfolding B_def using div_lo[of 100 "q + 71"] by simp
  have c: "q + 371 < 400 * C + 400" unfolding C_def using div_hi[of 400 "q + 371"] by simp
  have e: "DayFromYear (1970 + q + 2) = 365 * q + 730 + A - B + C"
    unfolding DayFromYear_def A_def B_def C_def by (simp add: algebra_simps)
  have "400 * d < 400 * (365 * q + 730 + A - B + C)"
    using q a b c by (simp add: algebra_simps)
  then show ?thesis unfolding q_def[symmetric] e by simp
qed

lemma YearFromDay_bounds:
  "DayFromYear (YearFromDay d) \<le> d" "d < DayFromYear (YearFromDay d + 1)"
  using est_lo[of d] est_hi[of d]
  by (auto simp add: YearFromDay_def Let_def algebra_simps)

lemma YearFromDay_unique:
  assumes "DayFromYear y \<le> d" "d < DayFromYear (y + 1)"
  shows "YearFromDay d = y"
proof (rule ccontr)
  assume ne: "YearFromDay d \<noteq> y"
  let ?z = "YearFromDay d"
  show False
  proof (cases "?z < y")
    case True
    then have "DayFromYear (?z + 1) \<le> DayFromYear y" by (intro DayFromYear_mono) simp
    then show False using YearFromDay_bounds(2)[of d] assms(1) by linarith
  next
    case False
    then have "y + 1 \<le> ?z" using ne by simp
    then have "DayFromYear (y + 1) \<le> DayFromYear ?z" by (rule DayFromYear_mono)
    then show False using YearFromDay_bounds(1)[of d] assms(2) by linarith
  qed
qed


lemma DayWithinYear_bounds:
  "0 \<le> DayWithinYear t" "DayWithinYear t < DaysInYear (YearFromTime t)"
  using YearFromDay_bounds[of "Day t"] DayFromYear_Suc[of "YearFromDay (Day t)"]
  by (simp_all add: DayWithinYear_def YearFromTime_def)

lemma InLeapYear_cases: "InLeapYear t = 0 \<or> InLeapYear t = 1"
  by (simp add: InLeapYear_def)

lemma MonthFromTime_range: "0 \<le> MonthFromTime t" "MonthFromTime t \<le> 11"
  by (simp_all add: MonthFromTime_def Let_def)

lemma DateFromTime_eq:
  "DateFromTime t = DayWithinYear t - monthStart (InLeapYear t) (MonthFromTime t) + 1"
  unfolding DateFromTime_def Let_def monthStart_def
  using MonthFromTime_range[of t] by simp

lemma MakeDay_fields:
  "MakeDay (YearFromTime t) (MonthFromTime t) (DateFromTime t + k) = Day t + k"
proof -
  have m: "MonthFromTime t div 12 = 0" "MonthFromTime t mod 12 = MonthFromTime t"
    using MonthFromTime_range[of t] by simp_all
  show ?thesis
    unfolding MakeDay_def Let_def m DateFromTime_eq
    by (simp add: InLeapYear_def DayWithinYear_def)
qed

lemma Day_MakeDate: "0 \<le> tm \<Longrightarrow> tm < msPerDay \<Longrightarrow> Day (MakeDate d tm) = d"
  unfolding Day_def MakeDate_def msPerDay_def
  using int_div_pos_eq[of "d * 86400000 + tm" 86400000 d tm] by (simp add: mult.commute)


lemma month_cases:
  "1 \<le> (m::int) \<Longrightarrow> m \<le> 12 \<Longrightarrow>
     m = 1 \<or> m = 2 \<or> m = 3 \<or> m = 4 \<or> m = 5 \<or> m = 6 \<or> m = 7 \<or> m = 8 \<or> m = 9 \<or> m = 10
       \<or> m = 11 \<or> m = 12"
  by arith

lemma monthStart_bound:
  "1 \<le> m \<Longrightarrow> m \<le> 12 \<Longrightarrow> 0 \<le> monthStart l (m - 1) \<and> monthStart l (m - 1) \<le> 334 + l"
  if "l = 0 \<or> l = 1"
  using that month_cases[of m] by (auto simp add: monthStart_def)

lemma fields_Day:
  assumes "1 \<le> m" "m \<le> 12" "0 \<le> tm" "tm < msPerDay"
  shows "Day (MakeDate (MakeDay y (m - 1) d) tm)
           = DayFromYear y + monthStart (if DaysInYear y = 366 then 1 else 0) (m - 1) + d - 1"
proof -
  have "(m - 1) div 12 = 0" "(m - 1) mod 12 = m - 1" using assms(1,2) by simp_all
  then show ?thesis using assms(3,4) by (simp add: Day_MakeDate MakeDay_def)
qed

lemma fields_Year:
  assumes "1 \<le> m" "m \<le> 12" "1 \<le> d" "d \<le> 31" "0 \<le> tm" "tm < msPerDay"
  shows "YearFromTime (MakeDate (MakeDay y (m - 1) d) tm) = y"
proof -
  define l :: int where "l = (if DaysInYear y = 366 then 1 else 0)"
  have l: "l = 0 \<or> l = 1" by (simp add: l_def)
  have b: "0 \<le> monthStart l (m - 1) \<and> monthStart l (m - 1) \<le> 334 + l"
    using monthStart_bound[OF l assms(1,2)] .
  have diy: "DaysInYear y = 365 + l" using DaysInYear_cases[of y] by (auto simp add: l_def)
  have lo: "DayFromYear y \<le> DayFromYear y + monthStart l (m - 1) + d - 1"
    using b assms(3) by linarith
  have hi: "DayFromYear y + monthStart l (m - 1) + d - 1 < DayFromYear (y + 1)"
    using DayFromYear_Suc[of y] diy b assms(4) by linarith
  show ?thesis
    unfolding YearFromTime_def fields_Day[OF assms(1,2,5,6)] l_def[symmetric]
    by (rule YearFromDay_unique[OF lo hi])
qed

lemma fields_DayWithinYear:
  assumes "1 \<le> m" "m \<le> 12" "1 \<le> d" "d \<le> 31" "0 \<le> tm" "tm < msPerDay"
  shows "DayWithinYear (MakeDate (MakeDay y (m - 1) d) tm)
           = monthStart (if DaysInYear y = 366 then 1 else 0) (m - 1) + d - 1"
  unfolding DayWithinYear_def fields_Year[OF assms] fields_Day[OF assms(1,2,5,6)] by simp

lemma fields_Month:
  assumes "1 \<le> m" "m \<le> 12" "1 \<le> d" "d \<le> 31" "0 \<le> tm" "tm < msPerDay"
  shows "MonthFromTime (MakeDate (MakeDay y (m - 1) d) tm) = m - 1 \<longleftrightarrow> d \<le> DaysInMonth y m"
  unfolding MonthFromTime_def Let_def InLeapYear_def fields_Year[OF assms]
    fields_DayWithinYear[OF assms]
  using month_cases[OF assms(1,2)] assms(3,4)
  by (elim disjE) (simp_all add: monthStart_def DaysInMonth_def)

lemma fields_Date:
  assumes "1 \<le> m" "m \<le> 12" "1 \<le> d" "d \<le> DaysInMonth y m" "0 \<le> tm" "tm < msPerDay"
  shows "DateFromTime (MakeDate (MakeDay y (m - 1) d) tm) = d"
proof -
  have d31: "d \<le> 31" using assms(4) by (simp add: DaysInMonth_def split: if_splits)
  have mo: "MonthFromTime (MakeDate (MakeDay y (m - 1) d) tm) = m - 1"
    using fields_Month[OF assms(1,2,3) d31 assms(5,6)] assms(4) by simp
  show ?thesis
    unfolding DateFromTime_eq mo InLeapYear_def
      fields_Year[OF assms(1,2,3) d31 assms(5,6)]
      fields_DayWithinYear[OF assms(1,2,3) d31 assms(5,6)]
    by simp
qed

lemma MakeTime_range:
  assumes "0 \<le> hh" "hh \<le> 23" "0 \<le> mm" "mm \<le> 59"
  shows "0 \<le> MakeTime hh mm 0 0" "MakeTime hh mm 0 0 < msPerDay"
  using assms by (simp_all add: MakeTime_def msPerDay_def msPerHour_def msPerMinute_def)

lemma fields_Hour:
  assumes "0 \<le> hh" "hh \<le> 23" "0 \<le> mm" "mm \<le> 59"
  shows "HourFromTime (MakeDate dy (MakeTime hh mm 0 0)) = hh"
proof -
  have e: "MakeDate dy (MakeTime hh mm 0 0) = 3600000 * (dy * 24 + hh) + mm * 60000"
    by (simp add: MakeDate_def MakeTime_def msPerDay_def msPerHour_def msPerMinute_def)
  have "(3600000 * (dy * 24 + hh) + mm * 60000) div 3600000 = dy * 24 + hh"
    using assms(3,4) by (intro int_div_pos_eq[of _ _ _ "mm * 60000"]) simp_all
  moreover have "(dy * 24 + hh) mod 24 = hh"
    using assms(1,2) by (intro int_mod_pos_eq[of _ _ dy]) simp_all
  ultimately show ?thesis unfolding HourFromTime_def e msPerHour_def by simp
qed

lemma fields_Min:
  assumes "0 \<le> mm" "mm \<le> 59"
  shows "MinFromTime (MakeDate dy (MakeTime hh mm 0 0)) = mm"
proof -
  have e: "MakeDate dy (MakeTime hh mm 0 0) = 60000 * (60 * (dy * 24 + hh) + mm)"
    by (simp add: MakeDate_def MakeTime_def msPerDay_def msPerHour_def msPerMinute_def)
  have "(60 * (dy * 24 + hh) + mm) mod 60 = mm"
    using assms by (intro int_mod_pos_eq[of _ _ "dy * 24 + hh"]) simp_all
  then show ?thesis unfolding MinFromTime_def e msPerMinute_def by simp
qed

section \<open>Text Normalizer\<close>

text \<open>
  \<^verbatim>\<open>const arabicIndicMap = { ... }\<close>: the ten Arabic-Indic digits U+0660 .. U+0669 map
  to \<^verbatim>\<open>"0"\<close> .. \<^verbatim>\<open>"9"\<close>, the Arabic decimal separator U+066B to \<^verbatim>\<open>"."\<close> and the
  Arabic thousands separator U+066C to \<^verbatim>\<open>","\<close>.
\<close>

definition arabicIndicMap :: "jschar \<rightharpoonup> jsstring" where
  "arabicIndicMap = map_of
     [(0x0660, js ''0''), (0x0661, js ''1''), (0x0662, js ''2''), (0x0663, js ''3''),
      (0x0664, js ''4''), (0x0665, js ''5''), (0x0666, js ''6''), (0x0667, js ''7''),
      (0x0668, js ''8''), (0x0669, js ''9''), (0x066B, js ''.''), (0x066C, js '','')]"

text \<open>The character class \<^verbatim>\<open>[\u0660-\u0669\u066B\u066C]\<close>.\<close>

definition digitClass :: "jschar \<Rightarrow> bool" where
  "digitClass ch = ((0x0660 \<le> ch \<and> ch \<le> 0x0669) \<or> ch = 0x066B \<or> ch = 0x066C)"

text \<open>
  \<^verbatim>\<open>s.replace(/[\u0660-\u0669\u066B\u066C]/g, (ch) => arabicIndicMap[ch] ?? ch)\<close>:
  every code unit of the class is replaced by the string the callback returns.
\<close>

definition normalizeDigits :: "jsstring \<Rightarrow> jsstring" where
  "normalizeDigits s = concat (map (\<lambda>ch.
     if digitClass ch then (case arabicIndicMap ch of Some r \<Rightarrow> r | None \<Rightarrow> [ch]) else [ch]) s)"

text \<open>The character class \<^verbatim>\<open>[\u200E\u200F\u202F\u00A0]\<close>.\<close>

definition weirdSpaceClass :: "jschar \<Rightarrow> bool" where
  "weirdSpaceClass ch = (ch = 0x200E \<or> ch = 0x200F \<or> ch = 0x202F \<or> ch = 0x00A0)"

text \<open>\<^verbatim>\<open>s.replace(/[\u200E\u200F\u202F\u00A0]/g, " ")\<close>\<close>

definition stripWeirdSpaces :: "jsstring \<Rightarrow> jsstring" where
  "stripWeirdSpaces s = concat (map (\<lambda>ch. if weirdSpaceClass ch then js '' '' else [ch]) s)"

section \<open>Date keys\<close>

text \<open>
  \<^verbatim>\<open>"" + n\<close> for an integral number \<open>n\<close>: its decimal digits, with a leading minus sign
  when negative.
\<close>

fun natToString :: "nat \<Rightarrow> jsstring" where
  "natToString n = (if n < 10 then [of_nat (48 + n)]
                    else natToString (n div 10) @ [of_nat (48 + n mod 10)])"

declare natToString.simps [simp del]

definition numberToString :: "int \<Rightarrow> jsstring" where
  "numberToString n = (if n < 0 then js ''-'' @ natToString (nat (- n)) else natToString (nat n))"

text \<open>\<^verbatim>\<open>function pad2(n) { return n < 10 ? "0" + n : "" + n; }\<close>\<close>

definition pad2 :: "int \<Rightarrow> jsstring" where
  "pad2 n = (if n < 10 then js ''0'' @ numberToString n else numberToString n)"

text \<open>
  \<^verbatim>\<open>function dayKey(d) { return `${d.getFullYear()}-${pad2(d.getMonth() + 1)}-${pad2(d.getDate())}`; }\<close>
  and
  \<^verbatim>\<open>function monthKey(d) { return `${d.getFullYear()}-${pad2(d.getMonth() + 1)}`; }\<close>
\<close>

definition dayKey :: "int \<Rightarrow> int \<Rightarrow> jsstring" where
  "dayKey tza d = numberToString (getFullYear tza d) @ js ''-'' @ pad2 (getMonth tza d + 1)
                    @ js ''-'' @ pad2 (getDate tza d)"

definition monthKey :: "int \<Rightarrow> int \<Rightarrow> jsstring" where
  "monthKey tza d = numberToString (getFullYear tza d) @ js ''-'' @ pad2 (getMonth tza d + 1)"

section \<open>Line Parser\<close>

text \<open>
  \<^verbatim>\<open>function makeStrictLocalDate(y, m, d, hh, mm)\<close>: builds the date in the host's time
  zone and returns \<^verbatim>\<open>null\<close> (here \<open>None\<close>) unless every field reads back as given.
\<close>

definition makeStrictLocalDate :: "timeZone \<Rightarrow> int \<Rightarrow> int \<Rightarrow> int \<Rightarrow> int \<Rightarrow> int \<Rightarrow> int option" where
  "makeStrictLocalDate zone y m d hh mm =
     (let dt = newDateIn zone y (m - 1) d hh mm 0 0 in
      if getFullYearIn zone dt \<noteq> y \<or> getMonthIn zone dt \<noteq> m - 1 \<or> getDateIn zone dt \<noteq> d
         \<or> getHoursIn zone dt \<noteq> hh \<or> getMinutesIn zone dt \<noteq> mm
      then None else Some dt)"

text \<open>
  The character classes of the regular expressions: \<^verbatim>\<open>\d\<close> is \<^verbatim>\<open>[0-9]\<close>; \<^verbatim>\<open>\s\<close> is
  ECMAScript's WhiteSpace and LineTerminator; \<^verbatim>\<open>.\<close> (no \<^verbatim>\<open>s\<close> flag) is anything
  but a LineTerminator; \<^verbatim>\<open>[\/\-]\<close>; and \<^verbatim>\<open>[-\u2013]\<close>, a hyphen or an en dash.
\<close>

definition isDigit :: "jschar \<Rightarrow> bool" where
  "isDigit c = (0x30 \<le> c \<and> c \<le> 0x39)"

definition isSpace :: "jschar \<Rightarrow> bool" where
  "isSpace c = (c = 0x09 \<or> c = 0x0A \<or> c = 0x0B \<or> c = 0x0C \<or> c = 0x0D \<or> c = 0x20
     \<or> c = 0xA0 \<or> c = 0x1680 \<or> (0x2000 \<le> c \<and> c \<le> 0x200A) \<or> c = 0x2028 \<or> c = 0x2029
     \<or> c = 0x202F \<or> c = 0x205F \<or> c = 0x3000 \<or> c = 0xFEFF)"

definition isLineTerminator :: "jschar \<Rightarrow> bool" where
  "isLineTerminator c = (c = 0x0A \<or> c = 0x0D \<or> c = 0x2028 \<or> c = 0x2029)"

definition isDateSep :: "jschar \<Rightarrow> bool" where
  "isDateSep c = (c = 0x2F \<or> c = 0x2D)"

definition isDash :: "jschar \<Rightarrow> bool" where
  "isDash c = (c = 0x2D \<or> c = 0x2013)"

text \<open>
  The result of a successful match of \<^verbatim>\<open>LINE_RE\<close>: the capture groups \<^verbatim>\<open>m[1]\<close> to
  \<^verbatim>\<open>m[7]\<close>; \<^verbatim>\<open>m[6]\<close> is \<^verbatim>\<open>undefined\<close> (here \<open>None\<close>) when the optional group did not
  take part in the match.
\<close>

record reMatch =
  m1 :: jsstring
  m2 :: jsstring
  m3 :: jsstring
  m4 :: jsstring
  m5 :: jsstring
  m6 :: "jsstring option"
  m7 :: jsstring

text \<open>
  \<^verbatim>\<open>(?:\s?(AM|PM))?\<close> under the \<^verbatim>\<open>i\<close> flag, at the head of \<open>r\<close>: the captured marker and
  what follows it, or \<open>None\<close> when the group matches nothing here.
\<close>

definition matchAmPm :: "jsstring \<Rightarrow> (jsstring \<times> jsstring) option" where
  "matchAmPm r =
     (let r' = (case r of [] \<Rightarrow> [] | c # cs \<Rightarrow> if isSpace c then cs else r) in
      case r' of
        a # b # rest \<Rightarrow>
          if (a = 0x41 \<or> a = 0x61 \<or> a = 0x50 \<or> a = 0x70) \<and> (b = 0x4D \<or> b = 0x6D)
          then Some ([a, b], rest) else None
      | _ \<Rightarrow> None)"

text \<open>
  \<^verbatim>\<open>\s*[-\u2013]\s*(.*)$\<close> at the head of \<open>r\<close>: the last capture group, or \<open>None\<close>.
\<close>

definition matchTail :: "jsstring \<Rightarrow> jsstring option" where
  "matchTail r =
     (case dropWhile isSpace r of
        [] \<Rightarrow> None
      | c # cs \<Rightarrow>
          if \<not> isDash c then None
          else (let rest = dropWhile isSpace cs in
                if list_ex isLineTerminator rest then None else Some rest))"

text \<open>
  \<^verbatim>\<open>line.match(LINE_RE)\<close> with
  \<^verbatim>\<open>LINE_RE = /^(\d{1,2})[\/\-](\d{1,2})[\/\-](\d{2,4}),?\s+(\d{1,2}):(\d{2})(?:\s?(AM|PM))?\s*[-\u2013]\s*(.*)$/i\<close>.
  Backtracking never changes the outcome, so the match is decided from left to right:
  \<^item> a run of digits is followed by a separator, a comma, white space or a colon, none of
    which is a digit, and the run of white space after the date by a digit: each run is
    taken whole, and the match fails when the run is too short or too long;
  \<^item> the optional group \<^verbatim>\<open>(?:\s?(AM|PM))?\<close> is tried first; when it matches and the rest
    does not, leaving it out cannot succeed either, because the dash would then have to
    match the first letter of the marker;
  \<^item> in \<^verbatim>\<open>\s*(.*)$\<close> the greedy \<^verbatim>\<open>\s*\<close> takes the whole run of white space, so the last
    group starts at the first character that is not white space; \<^verbatim>\<open>(.*)$\<close> fails exactly
    when a line terminator follows, and then giving white space back does not help.
\<close>

definition matchLineRe :: "jsstring \<Rightarrow> reMatch option" where
  "matchLineRe line =
     (let d1 = takeWhile isDigit line; r1 = dropWhile isDigit line in
      if length d1 < 1 \<or> 2 < length d1 then None else
      case r1 of [] \<Rightarrow> None | s1 # r1' \<Rightarrow>
      if \<not> isDateSep s1 then None else
      let d2 = takeWhile isDigit r1'; r2 = dropWhile isDigit r1' in
      if length d2 < 1 \<or> 2 < length d2 then None else
      case r2 of [] \<Rightarrow> None | s2 # r2' \<Rightarrow>
      if \<not> isDateSep s2 then None else
      let d3 = takeWhile isDigit r2'; r3 = dropWhile isDigit r2' in
      if length d3 < 2 \<or> 4 < length d3 then None else
      let r4 = (case r3 of [] \<Rightarrow> [] | c # cs \<Rightarrow> if c = 0x2C then cs else r3) in
      if takeWhile isSpace r4 = [] then None else
      let r5 = dropWhile isSpace r4;
          d4 = takeWhile isDigit r5; r6 = dropWhile isDigit r5 in
      if length d4 < 1 \<or> 2 < length d4 then None else
      case r6 of [] \<Rightarrow> None | colon # r7 \<Rightarrow>
      if colon \<noteq> 0x3A then None else
      case r7 of
        a # b # r8 \<Rightarrow>
          if \<not> (isDigit a \<and> isDigit b) then None else
          (case matchAmPm r8 of
             Some (marker, r9) \<Rightarrow>
               (case matchTail r9 of
                  None \<Rightarrow> None
                | Some rest \<Rightarrow> Some \<lparr>m1 = d1, m2 = d2, m3 = d3, m4 = d4, m5 = [a, b],
                                      m6 = Some marker, m7 = rest\<rparr>)
           | None \<Rightarrow>
               (case matchTail r8 of
                  None \<Rightarrow> None
                | Some rest \<Rightarrow> Some \<lparr>m1 = d1, m2 = d2, m3 = d3, m4 = d4, m5 = [a, b],
                                      m6 = None, m7 = rest\<rparr>))
      | _ \<Rightarrow> None)"

text \<open>
  \<^verbatim>\<open>parseInt(s, 10)\<close> on a capture group of digits: the value of the leading digits;
  \<open>None\<close> stands for \<^verbatim>\<open>NaN\<close>, which \<^verbatim>\<open>Number.isFinite\<close> refuses.
\<close>

definition parseInt :: "jsstring \<Rightarrow> int option" where
  "parseInt s = (let ds = takeWhile isDigit s in
     if ds = [] then None
     else Some (foldl (\<lambda>acc c. acc * 10 + (uint c - 48)) 0 ds))"

text \<open>\<^verbatim>\<open>toUpperCase()\<close>, on the letters a capture of \<^verbatim>\<open>(AM|PM)\<close> can hold.\<close>

definition toUpperCase :: "jsstring \<Rightarrow> jsstring" where
  "toUpperCase s = map (\<lambda>c. if 0x61 \<le> c \<and> c \<le> 0x7A then c - 0x20 else c) s"

text \<open>\<^verbatim>\<open>trim()\<close> removes white space and line terminators at both ends.\<close>

definition trim :: "jsstring \<Rightarrow> jsstring" where
  "trim s = rev (dropWhile isSpace (rev (dropWhile isSpace s)))"

text \<open>
  \<^verbatim>\<open>rest.indexOf(": ")\<close> with the two slices around it: \<open>Some (front, back)\<close> for the
  first occurrence, \<open>None\<close> when the index is \<open>-1\<close>.
\<close>

fun splitAtColonSpace :: "jsstring \<Rightarrow> (jsstring \<times> jsstring) option" where
  "splitAtColonSpace [] = None"
| "splitAtColonSpace (c # cs) =
     (if c = 0x3A \<and> (case cs of [] \<Rightarrow> False | d # _ \<Rightarrow> d = 0x20) then Some ([], tl cs)
      else (case splitAtColonSpace cs of
              None \<Rightarrow> None
            | Some (front, back) \<Rightarrow> Some (c # front, back)))"

datatype dateOrder = MDY | DMY

record msg =
  ts :: int
  sender :: "jsstring option"
  text' :: jsstring

text \<open>
  The fields of a timestamp as \<^verbatim>\<open>parseLine\<close> computes them from a match, before any
  validation: a year below 100 gets 2000 added, the hour is turned to the 24-hour
  clock, and the date order decides which leading number is the month.
  The result is \<open>(year, month, day, hour, minute)\<close>.
\<close>

definition timestampFields :: "reMatch \<Rightarrow> dateOrder \<Rightarrow> (int \<times> int \<times> int \<times> int \<times> int) option" where
  "timestampFields m dateOrder =
     (case (parseInt (m1 m), parseInt (m2 m), parseInt (m3 m), parseInt (m4 m), parseInt (m5 m)) of
        (Some n1, Some n2, Some year0, Some hour0, Some minute) \<Rightarrow>
          (let ampm = toUpperCase (case m6 m of None \<Rightarrow> [] | Some s \<Rightarrow> s);
               year = (if year0 < 100 then year0 + 2000 else year0);
               hour1 = (if ampm = js ''AM'' \<and> hour0 = 12 then 0 else hour0);
               hour = (if ampm = js ''PM'' \<and> hour1 < 12 then hour1 + 12 else hour1);
               month = (if dateOrder = MDY then n1 else n2);
               day = (if dateOrder = MDY then n2 else n1)
           in Some (year, month, day, hour, minute))
      | _ \<Rightarrow> None)"

text \<open>The range check of \<^verbatim>\<open>parseLine\<close>, made before the date is built.\<close>

definition rangeOk :: "int \<Rightarrow> int \<Rightarrow> int \<Rightarrow> int \<Rightarrow> bool" where
  "rangeOk month day hour minute =
     (\<not> (month < 1 \<or> month > 12 \<or> day < 1 \<or> day > 31 \<or> hour < 0 \<or> hour > 23
         \<or> minute < 0 \<or> minute > 59))"

text \<open>
  \<^verbatim>\<open>function parseLine(line, dateOrder)\<close>: \<open>None\<close> is the \<^verbatim>\<open>null\<close> it returns for a line
  that does not match, for a field out of range and for a date that does not read back.
\<close>

definition parseLine :: "timeZone \<Rightarrow> jsstring \<Rightarrow> dateOrder \<Rightarrow> msg option" where
  "parseLine zone line dateOrder =
     (case matchLineRe line of
        None \<Rightarrow> None
      | Some m \<Rightarrow>
          (case timestampFields m dateOrder of
             None \<Rightarrow> None
           | Some (year, month, day, hour, minute) \<Rightarrow>
               if \<not> rangeOk month day hour minute then None
               else (case makeStrictLocalDate zone year month day hour minute of
                       None \<Rightarrow> None
                     | Some t \<Rightarrow>
                         (case splitAtColonSpace (m7 m) of
                            Some (front, back) \<Rightarrow>
                              Some \<lparr>ts = t, sender = Some (trim front), text' = back\<rparr>
                          | None \<Rightarrow> Some \<lparr>ts = t, sender = None, text' = trim (m7 m)\<rparr>))))"

section \<open>Date-Order Detector\<close>

text \<open>
  \<^verbatim>\<open>/(?:\sAM|\sPM)\s*[-\u2013]\s/.test(l)\<close>: \<open>ampmAt\<close> is a match starting at the head of
  the string, \<open>testAmPm\<close> a match starting anywhere. The expression has no \<^verbatim>\<open>i\<close> flag.
\<close>

definition ampmAt :: "jsstring \<Rightarrow> bool" where
  "ampmAt l =
     (case l of
        w # a # b # rest \<Rightarrow>
          isSpace w \<and> (a = 0x41 \<or> a = 0x50) \<and> b = 0x4D
          \<and> (case dropWhile isSpace rest of
                d # w2 # _ \<Rightarrow> isDash d \<and> isSpace w2
              | _ \<Rightarrow> False)
      | _ \<Rightarrow> False)"

fun testAmPm :: "jsstring \<Rightarrow> bool" where
  "testAmPm [] = False"
| "testAmPm (c # cs) = (ampmAt (c # cs) \<or> testAmPm cs)"

text \<open>The body of the voting loop: one line, and the two counters.\<close>

definition castVote :: "jsstring \<Rightarrow> int \<times> int \<Rightarrow> int \<times> int" where
  "castVote raw votes =
     (case matchLineRe (normalizeDigits (stripWeirdSpaces raw)) of
        None \<Rightarrow> votes
      | Some m \<Rightarrow>
          (case (parseInt (m1 m), parseInt (m2 m)) of
             (Some a, Some b) \<Rightarrow>
               if b > 12 \<and> a \<le> 12 then (fst votes + 1, snd votes)
               else if a > 12 \<and> b \<le> 12 then (fst votes, snd votes + 1)
               else votes
           | _ \<Rightarrow> votes))"

text \<open>
  \<^verbatim>\<open>function detectDateOrder(lines)\<close>, with the two command-line flags
  \<^verbatim>\<open>FORCE_MDY\<close> and \<^verbatim>\<open>FORCE_DMY\<close> it reads as parameters. \<open>detectDateOrder_ts\<close> is the
  variant of \<^verbatim>\<open>whatsapp-chat-time.ts\<close>, which counts the votes before it looks at the
  flags.
\<close>

definition detectDateOrder :: "bool \<Rightarrow> bool \<Rightarrow> jsstring list \<Rightarrow> dateOrder" where
  "detectDateOrder FORCE_MDY FORCE_DMY lines =
     (if FORCE_MDY then MDY
      else if FORCE_DMY then DMY
      else (let votes = fold castVote lines (0, 0); mdy = fst votes; dmy = snd votes in
            if mdy > dmy then MDY
            else if dmy > mdy then DMY
            else (let hasAmPm = list_ex testAmPm lines in
                  if hasAmPm then MDY else DMY)))"

definition detectDateOrder_ts :: "bool \<Rightarrow> bool \<Rightarrow> jsstring list \<Rightarrow> dateOrder" where
  "detectDateOrder_ts FORCE_MDY FORCE_DMY lines =
     (let votes = fold castVote lines (0, 0); votesMDY = fst votes; votesDMY = snd votes in
      if FORCE_MDY then MDY
      else if FORCE_DMY then DMY
      else if votesMDY > votesDMY then MDY
      else if votesDMY > votesMDY then DMY
      else (let hasAmPm = list_ex testAmPm lines in
            if hasAmPm then MDY else DMY))"

section \<open>Chat Parser\<close>

text \<open>
  The body of the loop of \<^verbatim>\<open>parseChat\<close>: one raw line, and the arrays \<^verbatim>\<open>msgs\<close> and
  \<^verbatim>\<open>rejected\<close>. A line that matches the grammar and is not parsed is kept as an example,
  up to five of them.
\<close>

definition parseChatStep :: "timeZone \<Rightarrow> dateOrder \<Rightarrow> jsstring \<Rightarrow> msg list \<times> jsstring list
    \<Rightarrow> msg list \<times> jsstring list" where
  "parseChatStep zone order raw acc =
     (let line = normalizeDigits (stripWeirdSpaces raw) in
      case parseLine zone line order of
        Some m \<Rightarrow> (fst acc @ [m], snd acc)
      | None \<Rightarrow>
          if matchLineRe line \<noteq> None \<and> length (snd acc) < 5
          then (fst acc, snd acc @ [line]) else acc)"

text \<open>
  \<^verbatim>\<open>function parseChat(allLines)\<close>, returning \<^verbatim>\<open>{ msgs, dateOrder, rejected }\<close> as a
  triple. \<^verbatim>\<open>msgs.sort((a, b) => a.ts - b.ts)\<close> is a stable sort by timestamp.
\<close>

definition parseChat :: "timeZone \<Rightarrow> bool \<Rightarrow> bool \<Rightarrow> jsstring list
    \<Rightarrow> msg list \<times> dateOrder \<times> jsstring list" where
  "parseChat zone FORCE_MDY FORCE_DMY allLines =
     (let order = detectDateOrder FORCE_MDY FORCE_DMY allLines;
          acc = fold (parseChatStep zone order) allLines ([], [])
      in (sort_key ts (fst acc), order, snd acc))"

section \<open>Session Segmenter\<close>

text \<open>
  A session \<^verbatim>\<open>{ start, end, count }\<close>; \<^verbatim>\<open>start\<close> and \<^verbatim>\<open>end\<close> are the \<^verbatim>\<open>Date\<close> objects
  of its first and last message, held as their time values.
\<close>

record session =
  start :: int
  end' :: int
  count :: int

text \<open>
  The loop of \<^verbatim>\<open>groupSessions\<close> from index \<open>i\<close> on: \<open>prev\<close> is \<^verbatim>\<open>msgs[i - 1].ts.getTime()\<close>,
  the list holds \<^verbatim>\<open>msgs[i]\<close>, \<^verbatim>\<open>msgs[i + 1]\<close>, ..., and \<open>cur\<close> and \<open>out\<close> are the
  variables of the source. The last step is the \<^verbatim>\<open>out.push(cur)\<close> after the loop.
\<close>

fun groupLoop :: "int \<Rightarrow> int \<Rightarrow> msg list \<Rightarrow> session \<Rightarrow> session list \<Rightarrow> session list" where
  "groupLoop th prev [] cur out = out @ [cur]"
| "groupLoop th prev (m # mss) cur out =
     (if ts m - prev < th
      then groupLoop th (ts m) mss (cur\<lparr>end' := ts m, count := count cur + 1\<rparr>) out
      else groupLoop th (ts m) mss \<lparr>start = ts m, end' = ts m, count = 1\<rparr> (out @ [cur]))"

text \<open>\<^verbatim>\<open>function groupSessions(msgs, gapMin)\<close>\<close>

definition groupSessions :: "msg list \<Rightarrow> int \<Rightarrow> session list" where
  "groupSessions msgs gapMin =
     (case msgs of
        [] \<Rightarrow> []
      | m0 # rest \<Rightarrow>
          (let th = gapMin * 60 * 1000 in
           groupLoop th (ts m0) rest \<lparr>start = ts m0, end' = ts m0, count = 1\<rparr> []))"

section \<open>Day Splitter\<close>

record daySlice =
  day :: jsstring
  ms :: int

text \<open>
  The next local midnight as the loop of \<^verbatim>\<open>splitSessionByDay\<close> computes it:
  \<^verbatim>\<open>new Date(d.getFullYear(), d.getMonth(), d.getDate() + 1).getTime()\<close> for
  \<^verbatim>\<open>d = new Date(start)\<close>. For a start in the years 0 to 99 the constructor reads the
  year as 1900 + year and the result lies centuries later; the Line Parser never
  produces such a year.
\<close>

definition nextMidnight :: "int \<Rightarrow> int \<Rightarrow> int" where
  "nextMidnight tza t =
     newDate tza (getFullYear tza t) (getMonth tza t) (getDate tza t + 1) 0 0 0 0"

lemma nextMidnight_eq:
  assumes "\<not> (0 \<le> getFullYear tza t \<and> getFullYear tza t \<le> 99)"
  shows "nextMidnight tza t = (Day (LocalTime tza t) + 1) * msPerDay - tza"
proof -
  have e: "(if 0 \<le> getFullYear tza t \<and> getFullYear tza t \<le> 99
            then 1900 + getFullYear tza t else getFullYear tza t) = getFullYear tza t"
    using assms by auto
  show ?thesis
    unfolding nextMidnight_def newDate_def Let_def e
    by (simp add: getFullYear_def getMonth_def getDate_def MakeDay_fields MakeDate_def
        MakeTime_def UTC_def)
qed

lemma monthStart_leap_diff:
  assumes "l = 0 \<or> l = 1" "l' = 0 \<or> l' = 1"
  shows "monthStart l mn \<le> monthStart l' mn + 1"
  using assms by (auto simp add: monthStart_def)

lemma Day_bounds: "Day t * msPerDay \<le> t" "t < (Day t + 1) * msPerDay"
  using div_lo[of msPerDay t] div_hi[of msPerDay t]
  by (simp_all add: Day_def msPerDay_def algebra_simps)

lemma nextMidnight_gt: "t < nextMidnight tza t"
proof (cases "0 \<le> getFullYear tza t \<and> getFullYear tza t \<le> 99")
  case False
  then show ?thesis
    using Day_bounds(2)[of "LocalTime tza t"] by (simp add: nextMidnight_eq LocalTime_def)
next
  case True
  define lt where "lt = LocalTime tza t"
  define y where "y = YearFromTime lt"
  define mn where "mn = MonthFromTime lt"
  define l :: int where "l = (if DaysInYear y = 366 then 1 else 0)"
  define l' :: int where "l' = (if DaysInYear (1900 + y) = 366 then 1 else 0)"
  have mn: "mn div 12 = 0" "mn mod 12 = mn"
    using MonthFromTime_range[of lt] by (simp_all add: mn_def)
  have day: "Day lt = DayFromYear y + monthStart l mn + DateFromTime lt - 1"
    unfolding DateFromTime_eq y_def mn_def l_def
    by (simp add: InLeapYear_def DayWithinYear_def)
  have yr: "DayFromYear y + 365 * 1900 \<le> DayFromYear (1900 + y)"
    using DayFromYear_mono_aux[of 1900 y] by (simp add: add.commute)
  have ms: "monthStart l mn \<le> monthStart l' mn + 1"
    by (rule monthStart_leap_diff) (simp_all add: l_def l'_def)
  have "nextMidnight tza t
          = (DayFromYear (1900 + y) + monthStart l' mn + DateFromTime lt) * msPerDay - tza"
    using True
    by (simp add: nextMidnight_def newDate_def getFullYear_def getMonth_def getDate_def
        MakeDay_def MakeDate_def MakeTime_def UTC_def lt_def[symmetric] y_def[symmetric]
        mn_def[symmetric] mn l'_def Let_def)
  moreover have "Day lt + 1 \<le> DayFromYear (1900 + y) + monthStart l' mn + DateFromTime lt"
    using day yr ms by linarith
  then have "(Day lt + 1) * msPerDay
               \<le> (DayFromYear (1900 + y) + monthStart l' mn + DateFromTime lt) * msPerDay"
    by (simp add: msPerDay_def)
  ultimately show ?thesis
    using Day_bounds(2)[of lt] by (simp add: lt_def LocalTime_def)
qed

text \<open>
  The \<^verbatim>\<open>while (start < end)\<close> loop of \<^verbatim>\<open>splitSessionByDay\<close>, with its variables
  \<^verbatim>\<open>start\<close> (here \<open>st\<close>) and \<^verbatim>\<open>parts\<close>; \<open>en\<close> is \<^verbatim>\<open>end\<close>. It terminates because the
  next local midnight lies after \<^verbatim>\<open>start\<close>.
\<close>

function splitLoop :: "int \<Rightarrow> int \<Rightarrow> int \<Rightarrow> daySlice list \<Rightarrow> daySlice list" where
  "splitLoop tza st en parts =
     (if st < en
      then (let midnight = nextMidnight tza st;
                sliceEnd = min en midnight
            in splitLoop tza sliceEnd en
                 (parts @ [\<lparr>day = dayKey tza st, ms = sliceEnd - st\<rparr>]))
      else parts)"
  by pat_completeness auto
termination
proof (relation "measure (\<lambda>(tza, st, en, parts). nat (en - st))")
  show "wf (measure (\<lambda>(tza, st, en, parts). nat (en - st)))" by simp
next
  fix tza st en :: int and parts :: "daySlice list" and midnight sliceEnd :: int
  assume "st < en" "midnight = nextMidnight tza st" "sliceEnd = min en midnight"
  then show "((tza, sliceEnd, en, parts @ [\<lparr>day = dayKey tza st, ms = sliceEnd - st\<rparr>]),
              (tza, st, en, parts))
             \<in> measure (\<lambda>(tza, st, en, parts). nat (en - st))"
    using nextMidnight_gt[of st tza] by simp
qed

declare splitLoop.simps [simp del]

text \<open>\<^verbatim>\<open>function splitSessionByDay(s)\<close>, as the script with the monthly report has it.\<close>

definition splitSessionByDay :: "int \<Rightarrow> session \<Rightarrow> daySlice list" where
  "splitSessionByDay tza s =
     (if start s = end' s then [\<lparr>day = dayKey tza (start s), ms = 0\<rparr>]
      else splitLoop tza (start s) (end' s) [])"

text \<open>
  The variant of \<^verbatim>\<open>whatsapp-chat-time.ts\<close>: the loop first, then a slice of no duration
  when the loop produced none.
\<close>

definition splitSessionByDay_ts :: "int \<Rightarrow> session \<Rightarrow> daySlice list" where
  "splitSessionByDay_ts tza s =
     (let parts = splitLoop tza (start s) (end' s) [] in
      if length parts = 0 then parts @ [\<lparr>day = dayKey tza (start s), ms = 0\<rparr>] else parts)"

section \<open>Aggregator\<close>

text \<open>\<^verbatim>\<open>COUNT_BY\<close>, which is \<^verbatim>\<open>"presence"\<close> or \<^verbatim>\<open>"start"\<close>.\<close>

datatype countBy = ByStart | ByPresence

text \<open>
  A JavaScript \<^verbatim>\<open>Map\<close> from strings to numbers, as the list of its entries in insertion
  order: \<open>mapGetOr0 m k\<close> is \<^verbatim>\<open>(m.get(k) || 0)\<close> and \<open>mapSet m k v\<close> is \<^verbatim>\<open>m.set(k, v)\<close>,
  which overwrites the entry of a key that is present and appends one otherwise.
\<close>

type_synonym jsMap = "(jsstring \<times> int) list"

definition mapGetOr0 :: "jsMap \<Rightarrow> jsstring \<Rightarrow> int" where
  "mapGetOr0 m k = (case map_of m k of None \<Rightarrow> 0 | Some v \<Rightarrow> v)"

fun mapSet :: "jsMap \<Rightarrow> jsstring \<Rightarrow> int \<Rightarrow> jsMap" where
  "mapSet [] k v = [(k, v)]"
| "mapSet ((k', v') # m) k v = (if k' = k then (k, v) # m else (k', v') # mapSet m k v)"

text \<open>\<^verbatim>\<open>new Set(xs)\<close>, as the list of its elements in insertion order.\<close>

definition setOf :: "jsstring list \<Rightarrow> jsstring list" where
  "setOf xs = fold (\<lambda>x acc. if x \<in> set acc then acc else acc @ [x]) xs []"

text \<open>\<^verbatim>\<open>s.split("-")\<close>\<close>

fun splitOn :: "jschar \<Rightarrow> jsstring \<Rightarrow> jsstring list" where
  "splitOn sep [] = [[]]"
| "splitOn sep (c # cs) =
     (if c = sep then [] # splitOn sep cs
      else (case splitOn sep cs of [] \<Rightarrow> [[c]] | p # ps \<Rightarrow> (c # p) # ps))"

text \<open>
  \<^verbatim>\<open>const [y, m] = d.split("-"); const mk = `${y}-${m}`;\<close>: an element the array
  does not have is \<^verbatim>\<open>undefined\<close>, which the template prints as such.
\<close>

definition elementOrUndefined :: "jsstring list \<Rightarrow> nat \<Rightarrow> jsstring" where
  "elementOrUndefined xs i = (if i < length xs then xs ! i else js ''undefined'')"

definition monthOfDayKey :: "jsstring \<Rightarrow> jsstring" where
  "monthOfDayKey d = (let parts = splitOn 0x2D d in
     elementOrUndefined parts 0 @ js ''-'' @ elementOrUndefined parts 1)"

text \<open>The four maps the aggregation loop fills.\<close>

record aggregates =
  perDayDur :: jsMap
  perDayCount :: jsMap
  perMonthDur :: jsMap
  perMonthCount :: jsMap

definition emptyAggregates :: aggregates where
  "emptyAggregates = \<lparr>perDayDur = [], perDayCount = [], perMonthDur = [], perMonthCount = []\<rparr>"

text \<open>The body of \<^verbatim>\<open>for (const p of parts)\<close>.\<close>

definition addDuration :: "daySlice \<Rightarrow> aggregates \<Rightarrow> aggregates" where
  "addDuration p a =
     (let a1 = a\<lparr>perDayDur := mapSet (perDayDur a) (day p) (mapGetOr0 (perDayDur a) (day p) + ms p)\<rparr>;
          mk = monthOfDayKey (day p)
      in a1\<lparr>perMonthDur := mapSet (perMonthDur a1) mk (mapGetOr0 (perMonthDur a1) mk + ms p)\<rparr>)"

text \<open>The body of \<^verbatim>\<open>for (const d of seenDays)\<close>.\<close>

definition countDay :: "jsstring \<Rightarrow> aggregates \<Rightarrow> aggregates" where
  "countDay d a =
     (let a1 = a\<lparr>perDayCount := mapSet (perDayCount a) d (mapGetOr0 (perDayCount a) d + 1)\<rparr>;
          mk = monthOfDayKey d
      in a1\<lparr>perMonthCount := mapSet (perMonthCount a1) mk (mapGetOr0 (perMonthCount a1) mk + 1)\<rparr>)"

text \<open>The body of \<^verbatim>\<open>for (const s of sessions)\<close>.\<close>

definition aggregateSession :: "int \<Rightarrow> countBy \<Rightarrow> session \<Rightarrow> aggregates \<Rightarrow> aggregates" where
  "aggregateSession tza COUNT_BY s a =
     (let parts = splitSessionByDay tza s;
          a1 = fold addDuration parts a
      in if COUNT_BY = ByPresence
         then (let seenDays = setOf (map day parts) in fold countDay seenDays a1)
         else (let dkey = dayKey tza (start s);
                   a2 = a1\<lparr>perDayCount := mapSet (perDayCount a1) dkey (mapGetOr0 (perDayCount a1) dkey + 1)\<rparr>;
                   mkey = monthKey tza (start s)
               in a2\<lparr>perMonthCount := mapSet (perMonthCount a2) mkey (mapGetOr0 (perMonthCount a2) mkey + 1)\<rparr>))"

definition aggregate :: "int \<Rightarrow> countBy \<Rightarrow> session list \<Rightarrow> aggregates" where
  "aggregate tza COUNT_BY sessions = fold (aggregateSession tza COUNT_BY) sessions emptyAggregates"

text \<open>\<^verbatim>\<open>sessions.reduce((sum, s) => sum + (s.end - s.start), 0)\<close>\<close>

definition overallMs :: "session list \<Rightarrow> int" where
  "overallMs sessions = fold (\<lambda>s sum. sum + (end' s - start s)) sessions 0"

section \<open>Notions the properties are stated with\<close>

text \<open>The number of gaps in \<open>prev, mss\<close> that are not below the threshold.\<close>

fun breaks :: "int \<Rightarrow> int \<Rightarrow> msg list \<Rightarrow> nat" where
  "breaks th prev [] = 0"
| "breaks th prev (m # mss) = (if ts m - prev < th then 0 else 1) + breaks th (ts m) mss"


text \<open>
  The number of local midnights \<open>m\<close> with \<open>a < m \<le> b\<close>: the number of calendar days
  from the day of \<open>a\<close> to the day of \<open>b\<close>.
\<close>

definition midnightsUpTo :: "int \<Rightarrow> int \<Rightarrow> int \<Rightarrow> int" where
  "midnightsUpTo tza a b = Day (LocalTime tza b) - Day (LocalTime tza a)"

text \<open>
  The vote of one raw line: the line, normalized, matches the grammar, and its two
  leading numbers \<open>a\<close> and \<open>b\<close> have \<open>b > 12\<close> and \<open>a \<le> 12\<close> (a vote for MDY), or
  \<open>a > 12\<close> and \<open>b \<le> 12\<close> (a vote for DMY).
\<close>

definition votesForMDY :: "jsstring \<Rightarrow> bool" where
  "votesForMDY raw =
     (case matchLineRe (normalizeDigits (stripWeirdSpaces raw)) of
        None \<Rightarrow> False
      | Some m \<Rightarrow>
          (case (parseInt (m1 m), parseInt (m2 m)) of
             (Some a, Some b) \<Rightarrow> b > 12 \<and> a \<le> 12
           | _ \<Rightarrow> False))"

definition votesForDMY :: "jsstring \<Rightarrow> bool" where
  "votesForDMY raw =
     (case matchLineRe (normalizeDigits (stripWeirdSpaces raw)) of
        None \<Rightarrow> False
      | Some m \<Rightarrow>
          (case (parseInt (m1 m), parseInt (m2 m)) of
             (Some a, Some b) \<Rightarrow> a > 12 \<and> b \<le> 12
           | _ \<Rightarrow> False))"

text \<open>
  What the fallback test looks for in a raw line: a white-space character, then \<open>AM\<close>
  or \<open>PM\<close> in capitals, then any white space, then a hyphen or an en dash, then a
  white-space character.
\<close>

definition spacedAmPmBeforeDash :: "jsstring \<Rightarrow> bool" where
  "spacedAmPmBeforeDash l =
     (\<exists>pre w marker ws d w2 post.
        l = pre @ w # marker @ ws @ d # w2 # post
        \<and> isSpace w \<and> (marker = js ''AM'' \<or> marker = js ''PM'')
        \<and> list_all isSpace ws \<and> isDash d \<and> isSpace w2)"

text \<open>
  The claim's own words, \<^emph>\<open>an AM/PM marker immediately before the separator\<close>: \<open>AM\<close> or
  \<open>PM\<close>, then any white space, then a hyphen or an en dash.
\<close>

definition markerBeforeSeparator :: "jsstring \<Rightarrow> bool" where
  "markerBeforeSeparator l =
     (\<exists>pre marker ws d post.
        l = pre @ marker @ ws @ d # post
        \<and> (marker = js ''AM'' \<or> marker = js ''PM'')
        \<and> list_all isSpace ws \<and> isDash d)"

section \<open>Properties of the Text Normalizer\<close>

lemma digitClass_cases:
  assumes "digitClass ch"
  shows "ch \<in> {0x0660, 0x0661, 0x0662, 0x0663, 0x0664, 0x0665, 0x0666, 0x0667, 0x0668,
                0x0669, 0x066B, 0x066C}"
proof -
  have "(1632 \<le> unat ch \<and> unat ch \<le> 1641) \<or> ch = 0x066B \<or> ch = 0x066C"
    using assms by (simp add: digitClass_def word_le_nat_alt)
  then consider "1632 \<le> unat ch \<and> unat ch \<le> 1641" | "ch = 0x066B" | "ch = 0x066C"
    by blast
  then show ?thesis
  proof cases
    case 1
    then have "unat ch = 1632 \<or> unat ch = 1633 \<or> unat ch = 1634 \<or> unat ch = 1635
        \<or> unat ch = 1636 \<or> unat ch = 1637 \<or> unat ch = 1638 \<or> unat ch = 1639
        \<or> unat ch = 1640 \<or> unat ch = 1641"
      by arith
    moreover have "\<And>n. unat ch = n \<Longrightarrow> ch = word_of_nat n" by auto
    ultimately show ?thesis by fastforce
  qed simp_all
qed

lemma normalizeDigits_char_clean:
  assumes "c \<in> set (normalizeDigits s)"
  shows "\<not> digitClass c"
proof -
  obtain ch where ch: "ch \<in> set s"
    and c: "c \<in> set (if digitClass ch then (case arabicIndicMap ch of Some r \<Rightarrow> r | None \<Rightarrow> [ch]) else [ch])"
    using assms by (auto simp add: normalizeDigits_def)
  show ?thesis
  proof (cases "digitClass ch")
    case True
    from digitClass_cases[OF True] c True show ?thesis
      by (auto simp add: arabicIndicMap_def js_def digitClass_def)
  next
    case False
    then show ?thesis using c by simp
  qed
qed

lemma normalizeDigits_keeps_no_weird:
  assumes "c \<in> set (normalizeDigits s)" "\<forall>x \<in> set s. \<not> weirdSpaceClass x"
  shows "\<not> weirdSpaceClass c"
proof -
  obtain ch where ch: "ch \<in> set s"
    and c: "c \<in> set (if digitClass ch then (case arabicIndicMap ch of Some r \<Rightarrow> r | None \<Rightarrow> [ch]) else [ch])"
    using assms(1) by (auto simp add: normalizeDigits_def)
  show ?thesis
  proof (cases "digitClass ch")
    case True
    from digitClass_cases[OF True] c True show ?thesis
      by (auto simp add: arabicIndicMap_def js_def weirdSpaceClass_def)
  next
    case False
    then show ?thesis using c ch assms(2) by simp
  qed
qed

lemma stripWeirdSpaces_char_clean:
  "c \<in> set (stripWeirdSpaces s) \<Longrightarrow> \<not> weirdSpaceClass c"
  by (auto simp add: stripWeirdSpaces_def js_def weirdSpaceClass_def split: if_splits)

lemma stripWeirdSpaces_keeps_no_digit:
  "c \<in> set (stripWeirdSpaces s) \<Longrightarrow> \<forall>x \<in> set s. \<not> digitClass x \<Longrightarrow> \<not> digitClass c"
  by (auto simp add: stripWeirdSpaces_def js_def digitClass_def split: if_splits)

lemma normalizeDigits_fixed: "\<forall>x \<in> set s. \<not> digitClass x \<Longrightarrow> normalizeDigits s = s"
  by (induction s) (simp_all add: normalizeDigits_def)

lemma stripWeirdSpaces_fixed: "\<forall>x \<in> set s. \<not> weirdSpaceClass x \<Longrightarrow> stripWeirdSpaces s = s"
  by (induction s) (simp_all add: stripWeirdSpaces_def)

lemma normalize_after_strip_fixed:
  "stripWeirdSpaces (normalizeDigits (stripWeirdSpaces s)) = normalizeDigits (stripWeirdSpaces s)"
  by (rule stripWeirdSpaces_fixed)
     (meson normalizeDigits_keeps_no_weird stripWeirdSpaces_char_clean)

lemma strip_after_normalize_fixed:
  "normalizeDigits (stripWeirdSpaces (normalizeDigits s)) = stripWeirdSpaces (normalizeDigits s)"
  by (rule normalizeDigits_fixed)
     (meson stripWeirdSpaces_keeps_no_digit normalizeDigits_char_clean)

text \<open>
  C10. Text normalization is idempotent. The program normalizes a raw line as
  \<^verbatim>\<open>normalizeDigits(stripWeirdSpaces(raw))\<close>; the claim names the two passes in the
  other order. Both compositions are idempotent: applying the pair twice gives exactly
  the string that applying it once gives.
\<close>

theorem normalization_idempotent:
  "normalizeDigits (stripWeirdSpaces (normalizeDigits (stripWeirdSpaces s)))
     = normalizeDigits (stripWeirdSpaces s)
   \<and> stripWeirdSpaces (normalizeDigits (stripWeirdSpaces (normalizeDigits s)))
     = stripWeirdSpaces (normalizeDigits s)"
proof
  show "normalizeDigits (stripWeirdSpaces (normalizeDigits (stripWeirdSpaces s)))
     = normalizeDigits (stripWeirdSpaces s)"
    by (simp only: normalize_after_strip_fixed)
       (rule normalizeDigits_fixed, meson normalizeDigits_char_clean)
  show "stripWeirdSpaces (normalizeDigits (stripWeirdSpaces (normalizeDigits s)))
     = stripWeirdSpaces (normalizeDigits s)"
    by (simp only: strip_after_normalize_fixed)
       (rule stripWeirdSpaces_fixed, meson stripWeirdSpaces_char_clean)
qed

section \<open>Properties of the Session Segmenter\<close>

lemma groupLoop_out: "groupLoop th prev mss cur out = out @ groupLoop th prev mss cur []"
proof (induction mss arbitrary: prev cur out)
  case Nil
  then show ?case by simp
next
  case (Cons m mss)
  show ?case
  proof (cases "ts m - prev < th")
    case True
    then show ?thesis using Cons.IH[of "ts m" _ out] by simp
  next
    case False
    then show ?thesis
      using Cons.IH[of "ts m" _ "out @ [cur]"] Cons.IH[of "ts m" _ "[cur]"] by simp
  qed
qed

lemma length_groupLoop: "length (groupLoop th prev mss cur out) = length out + 1 + breaks th prev mss"
  by (induction mss arbitrary: prev cur out) simp_all

lemma breaks_antimono: "th1 \<le> th2 \<Longrightarrow> breaks th2 prev mss \<le> breaks th1 prev mss"
proof (induction mss arbitrary: prev)
  case Nil
  then show ?case by simp
next
  case (Cons m mss)
  from Cons.IH[OF Cons.prems, of "ts m"] Cons.prems show ?case by auto
qed

text \<open>
  C7. The number of sessions does not grow with the threshold: for thresholds
  \<open>t1 \<le> t2\<close>, \<^verbatim>\<open>groupSessions\<close> returns at most as many sessions at \<open>t2\<close> as at \<open>t1\<close>.
  This holds for every message sequence, sorted or not, and for every pair of
  thresholds, so in particular for the sorted sequences and the non-negative thresholds
  of the claim.
\<close>

theorem session_count_antimono:
  assumes "t1 \<le> t2"
  shows "length (groupSessions msgs t2) \<le> length (groupSessions msgs t1)"
proof (cases msgs)
  case Nil
  then show ?thesis by (simp add: groupSessions_def)
next
  case (Cons m0 rest)
  have "t1 * 60 * 1000 \<le> t2 * 60 * 1000" using assms by simp
  then show ?thesis
    using Cons by (simp add: groupSessions_def length_groupLoop breaks_antimono)
qed

theorem session_count_antimono_witness:
  "(0::int) \<le> 5
   \<and> length (groupSessions [\<lparr>ts = 0, sender = None, text' = []\<rparr>,
                            \<lparr>ts = 120000, sender = None, text' = []\<rparr>,
                            \<lparr>ts = 600000, sender = None, text' = []\<rparr>] 5) = 2
   \<and> length (groupSessions [\<lparr>ts = 0, sender = None, text' = []\<rparr>,
                            \<lparr>ts = 120000, sender = None, text' = []\<rparr>,
                            \<lparr>ts = 600000, sender = None, text' = []\<rparr>] 0) = 3"
  using session_count_antimono[of 0 5 "[\<lparr>ts = 0, sender = None, text' = []\<rparr>,
                            \<lparr>ts = 120000, sender = None, text' = []\<rparr>,
                            \<lparr>ts = 600000, sender = None, text' = []\<rparr>]"]
  by (simp add: groupSessions_def)

lemma groupLoop_invariant:
  assumes "sorted (map ts mss)" "\<forall>m \<in> set mss. prev \<le> ts m" "end' cur = prev"
    "start cur \<le> prev" "1 \<le> count cur"
  shows "sum_list (map count (groupLoop th prev mss cur [])) = count cur + int (length mss)
    \<and> (\<forall>s \<in> set (groupLoop th prev mss cur []).
          1 \<le> count s \<and> start s \<le> end' s \<and> start cur \<le> start s
          \<and> (start s = start cur \<or> start s \<in> ts ` set mss))
    \<and> sorted_wrt (\<lambda>a b. end' a \<le> start b) (groupLoop th prev mss cur [])"
  using assms
proof (induction mss arbitrary: prev cur)
  case Nil
  then show ?case by simp
next
  case (Cons m mss)
  have sorted: "sorted (map ts mss)" and le: "\<forall>x \<in> set mss. ts m \<le> ts x" and pm: "prev \<le> ts m"
    using Cons.prems(1,2) by simp_all
  show ?case
  proof (cases "ts m - prev < th")
    case True
    let ?cur = "cur\<lparr>end' := ts m, count := count cur + 1\<rparr>"
    have ih: "sum_list (map count (groupLoop th (ts m) mss ?cur [])) = count ?cur + int (length mss)
      \<and> (\<forall>s \<in> set (groupLoop th (ts m) mss ?cur []).
            1 \<le> count s \<and> start s \<le> end' s \<and> start ?cur \<le> start s
            \<and> (start s = start ?cur \<or> start s \<in> ts ` set mss))
      \<and> sorted_wrt (\<lambda>a b. end' a \<le> start b) (groupLoop th (ts m) mss ?cur [])"
      using Cons.prems(4,5) pm by (intro Cons.IH[OF sorted le]) simp_all
    then show ?thesis using True by auto
  next
    case False
    let ?new = "\<lparr>start = ts m, end' = ts m, count = 1\<rparr>"
    have ih: "sum_list (map count (groupLoop th (ts m) mss ?new [])) = count ?new + int (length mss)
      \<and> (\<forall>s \<in> set (groupLoop th (ts m) mss ?new []).
            1 \<le> count s \<and> start s \<le> end' s \<and> start ?new \<le> start s
            \<and> (start s = start ?new \<or> start s \<in> ts ` set mss))
      \<and> sorted_wrt (\<lambda>a b. end' a \<le> start b) (groupLoop th (ts m) mss ?new [])"
      by (intro Cons.IH[OF sorted le]) simp_all
    have unfold: "groupLoop th prev (m # mss) cur [] = cur # groupLoop th (ts m) mss ?new []"
      using False groupLoop_out[of th "ts m" mss ?new "[cur]"] by simp
    show ?thesis
      unfolding unfold using ih Cons.prems(3,4,5) pm by auto
  qed
qed

lemma groupSessions_start_le_end:
  assumes "sorted (map ts msgs)"
  shows "\<forall>s \<in> set (groupSessions msgs gapMin). start s \<le> end' s"
proof (cases msgs)
  case Nil
  then show ?thesis by (simp add: groupSessions_def)
next
  case (Cons m0 rest)
  let ?cur = "\<lparr>start = ts m0, end' = ts m0, count = 1\<rparr>"
  have "\<forall>s \<in> set (groupLoop (gapMin * 60 * 1000) (ts m0) rest ?cur []). start s \<le> end' s"
    using groupLoop_invariant[of rest "ts m0" ?cur "gapMin * 60 * 1000"] assms Cons by simp
  then show ?thesis using Cons by (simp add: groupSessions_def)
qed

text \<open>
  C9. On a message sequence sorted by timestamp, the sessions \<^verbatim>\<open>groupSessions\<close>
  returns partition the input: their message counts add up to the number of messages,
  every session has a count of at least 1, starts no later than it ends and starts at
  the timestamp of an input message, and the sessions are in chronological order (each
  one ends no later than every later one starts, so their starts are ascending too).
  The empty sequence gives no session.
\<close>

theorem sessions_partition_input:
  assumes "sorted (map ts msgs)"
  shows "sum_list (map count (groupSessions msgs gapMin)) = int (length msgs)
    \<and> (\<forall>s \<in> set (groupSessions msgs gapMin).
          1 \<le> count s \<and> start s \<le> end' s \<and> start s \<in> ts ` set msgs)
    \<and> sorted_wrt (\<lambda>a b. end' a \<le> start b) (groupSessions msgs gapMin)
    \<and> sorted (map start (groupSessions msgs gapMin))
    \<and> (msgs = [] \<longrightarrow> groupSessions msgs gapMin = [])"
proof (cases msgs)
  case Nil
  then show ?thesis by (simp add: groupSessions_def)
next
  case (Cons m0 rest)
  let ?cur = "\<lparr>start = ts m0, end' = ts m0, count = 1\<rparr>"
  let ?r = "groupLoop (gapMin * 60 * 1000) (ts m0) rest ?cur []"
  have r: "groupSessions msgs gapMin = ?r" using Cons by (simp add: groupSessions_def)
  have inv: "sum_list (map count ?r) = count ?cur + int (length rest)
    \<and> (\<forall>s \<in> set ?r. 1 \<le> count s \<and> start s \<le> end' s \<and> start ?cur \<le> start s
          \<and> (start s = start ?cur \<or> start s \<in> ts ` set rest))
    \<and> sorted_wrt (\<lambda>a b. end' a \<le> start b) ?r"
    using assms Cons by (intro groupLoop_invariant) simp_all
  have chrono: "sorted_wrt (\<lambda>a b. end' a \<le> start b) ?r" using inv by simp
  have each: "\<forall>s \<in> set ?r. start s \<le> end' s" using inv by simp
  have "sorted_wrt (\<lambda>a b. start a \<le> start b) ?r"
    using each by (intro sorted_wrt_mono_rel[OF _ chrono]) auto
  then have "sorted (map start ?r)" by (simp add: sorted_wrt_map)
  then show ?thesis unfolding r using inv Cons by auto
qed

theorem sessions_partition_input_witness:
  "sorted (map ts [\<lparr>ts = 0, sender = None, text' = []\<rparr>,
                   \<lparr>ts = 120000, sender = None, text' = []\<rparr>,
                   \<lparr>ts = 600000, sender = None, text' = []\<rparr>])
   \<and> groupSessions [\<lparr>ts = 0, sender = None, text' = []\<rparr>,
                     \<lparr>ts = 120000, sender = None, text' = []\<rparr>,
                     \<lparr>ts = 600000, sender = None, text' = []\<rparr>] 5
       = [\<lparr>start = 0, end' = 120000, count = 2\<rparr>, \<lparr>start = 600000, end' = 600000, count = 1\<rparr>]
   \<and> sum_list (map count (groupSessions [\<lparr>ts = 0, sender = None, text' = []\<rparr>,
                     \<lparr>ts = 120000, sender = None, text' = []\<rparr>,
                     \<lparr>ts = 600000, sender = None, text' = []\<rparr>] 5)) = 3"
  using sessions_partition_input[of "[\<lparr>ts = 0, sender = None, text' = []\<rparr>,
                     \<lparr>ts = 120000, sender = None, text' = []\<rparr>,
                     \<lparr>ts = 600000, sender = None, text' = []\<rparr>]" 5]
  by (simp add: groupSessions_def)

lemma groupLoop_threshold_zero:
  assumes "sorted (map ts mss)" "\<forall>m \<in> set mss. prev \<le> ts m"
  shows "groupLoop 0 prev mss cur out
           = out @ cur # map (\<lambda>m. \<lparr>start = ts m, end' = ts m, count = 1\<rparr>) mss"
  using assms
proof (induction mss arbitrary: prev cur out)
  case Nil
  then show ?case by simp
next
  case (Cons m mss)
  have "\<not> ts m - prev < 0" using Cons.prems(2) by simp
  moreover have "sorted (map ts mss)" "\<forall>x \<in> set mss. ts m \<le> ts x" using Cons.prems(1) by simp_all
  ultimately show ?case using Cons.IH[of "ts m"] by simp
qed

text \<open>
  C2, as the code has it. With gap threshold 0 the test \<^verbatim>\<open>curr - prev < th\<close> asks for a
  negative gap, which a sequence sorted by timestamp never has: no two messages merge,
  identical timestamps included, and every message is a session of its own with
  count 1.
\<close>

theorem threshold_zero_never_merges:
  assumes "sorted (map ts msgs)"
  shows "groupSessions msgs 0 = map (\<lambda>m. \<lparr>start = ts m, end' = ts m, count = 1\<rparr>) msgs"
proof (cases msgs)
  case Nil
  then show ?thesis by (simp add: groupSessions_def)
next
  case (Cons m0 rest)
  then show ?thesis
    using assms by (simp add: groupSessions_def groupLoop_threshold_zero)
qed

theorem threshold_zero_never_merges_witness:
  "sorted (map ts [\<lparr>ts = 5, sender = None, text' = []\<rparr>, \<lparr>ts = 5, sender = None, text' = []\<rparr>,
                   \<lparr>ts = 9, sender = None, text' = []\<rparr>])
   \<and> groupSessions [\<lparr>ts = 5, sender = None, text' = []\<rparr>, \<lparr>ts = 5, sender = None, text' = []\<rparr>,
                     \<lparr>ts = 9, sender = None, text' = []\<rparr>] 0
       = [\<lparr>start = 5, end' = 5, count = 1\<rparr>, \<lparr>start = 5, end' = 5, count = 1\<rparr>,
          \<lparr>start = 9, end' = 9, count = 1\<rparr>]"
  using threshold_zero_never_merges[of "[\<lparr>ts = 5, sender = None, text' = []\<rparr>,
      \<lparr>ts = 5, sender = None, text' = []\<rparr>, \<lparr>ts = 9, sender = None, text' = []\<rparr>]"]
  by simp

text \<open>
  C2 as stated fails: two consecutive messages with the identical timestamp 5, at
  threshold 0, come out as two sessions of one message each, not as one session of two.
\<close>

theorem threshold_zero_counterexample:
  "groupSessions [\<lparr>ts = 5, sender = None, text' = []\<rparr>, \<lparr>ts = 5, sender = None, text' = []\<rparr>] 0
     = [\<lparr>start = 5, end' = 5, count = 1\<rparr>, \<lparr>start = 5, end' = 5, count = 1\<rparr>]
   \<and> groupSessions [\<lparr>ts = 5, sender = None, text' = []\<rparr>, \<lparr>ts = 5, sender = None, text' = []\<rparr>] 0
     \<noteq> [\<lparr>start = 5, end' = 5, count = 2\<rparr>]"
  by (simp add: groupSessions_def)

section \<open>Properties of the Day Splitter\<close>


lemma Day_mono: "a \<le> b \<Longrightarrow> Day a \<le> Day b"
  by (simp add: Day_def msPerDay_def zdiv_mono1)



lemma splitLoop_sum:
  "st \<le> en \<Longrightarrow> sum_list (map ms (splitLoop tza st en parts)) = sum_list (map ms parts) + (en - st)"
proof (induction tza st en parts rule: splitLoop.induct)
  case (1 tza st en parts)
  show ?case
  proof (cases "st < en")
    case True
    let ?e = "min en (nextMidnight tza st)"
    have "?e \<le> en" by simp
    from "1.IH"[OF True refl refl this] True show ?thesis
      by (subst splitLoop.simps) (simp add: Let_def)
  next
    case False
    then show ?thesis using "1.prems" by (subst splitLoop.simps) simp
  qed
qed

lemma splitLoop_nonempty: "st < en \<Longrightarrow> splitLoop tza st en [] \<noteq> []"
proof -
  assume lt: "st < en"
  have "sum_list (map ms (splitLoop tza st en [])) = en - st"
    using splitLoop_sum[of st en tza "[]"] lt by simp
  then show ?thesis using lt by auto
qed

lemma splitSessionByDay_ts_eq:
  "start s \<le> end' s \<Longrightarrow> splitSessionByDay_ts tza s = splitSessionByDay tza s"
proof (cases "start s = end' s")
  case True
  then show ?thesis
    by (simp add: splitSessionByDay_ts_def splitSessionByDay_def splitLoop.simps[of tza "end' s"])
next
  case False
  assume "start s \<le> end' s"
  then have "start s < end' s" using False by simp
  then show ?thesis
    using splitLoop_nonempty[of "start s" "end' s" tza] False
    by (simp add: splitSessionByDay_ts_def splitSessionByDay_def)
qed

text \<open>
  C3. For a session with \<open>start \<le> end\<close> (which every session of the Session Segmenter
  on sorted messages is), the durations of the slices \<^verbatim>\<open>splitSessionByDay\<close> returns add
  up to \<open>end - start\<close> exactly, in milliseconds; and a session with \<open>start = end\<close> gives
  exactly one slice, of duration 0, keyed by the calendar day of its start. Both
  variants of the function agree on such sessions. (For \<open>start > end\<close> the loop does
  not run and the durations add up to 0.)
\<close>

theorem slices_sum_to_span:
  assumes "start s \<le> end' s"
  shows "sum_list (map ms (splitSessionByDay tza s)) = end' s - start s
    \<and> (start s = end' s \<longrightarrow> splitSessionByDay tza s = [\<lparr>day = dayKey tza (start s), ms = 0\<rparr>])
    \<and> splitSessionByDay_ts tza s = splitSessionByDay tza s"
  using assms splitLoop_sum[of "start s" "end' s" tza "[]"] splitSessionByDay_ts_eq[of s tza]
  by (simp add: splitSessionByDay_def)

theorem slices_sum_to_span_witness:
  "start \<lparr>start = 1735775880000, end' = 1735776300000, count = 2\<rparr>
     \<le> end' \<lparr>start = 1735775880000, end' = 1735776300000, count = 2\<rparr>
   \<and> splitSessionByDay 0 \<lparr>start = 1735775880000, end' = 1735776300000, count = 2\<rparr>
       = [\<lparr>day = js ''2025-01-01'', ms = 120000\<rparr>, \<lparr>day = js ''2025-01-02'', ms = 300000\<rparr>]
   \<and> sum_list (map ms (splitSessionByDay 0 \<lparr>start = 1735775880000, end' = 1735776300000, count = 2\<rparr>))
       = 420000"
proof -
  have e: "splitSessionByDay 0 \<lparr>start = 1735775880000, end' = 1735776300000, count = 2\<rparr>
       = [\<lparr>day = js ''2025-01-01'', ms = 120000\<rparr>, \<lparr>day = js ''2025-01-02'', ms = 300000\<rparr>]"
    by code_simp
  show ?thesis
    using slices_sum_to_span[of "\<lparr>start = 1735775880000, end' = 1735776300000, count = 2\<rparr>" 0] e
    by simp
qed




text \<open>
  \<open>midnightsUpTo\<close> counts what its name says: the local midnights \<open>k * msPerDay - tza\<close>
  after \<open>a\<close> and up to \<open>b\<close>.
\<close>

lemma Day_le_iff: "k \<le> Day t \<longleftrightarrow> k * msPerDay \<le> t"
proof
  assume "k \<le> Day t"
  then have "k * msPerDay \<le> Day t * msPerDay" by (simp add: msPerDay_def)
  then show "k * msPerDay \<le> t" using Day_bounds(1)[of t] by linarith
next
  assume "k * msPerDay \<le> t"
  then have "Day (k * msPerDay) \<le> Day t" by (rule Day_mono)
  moreover have "Day (k * msPerDay) = k" by (simp add: Day_def msPerDay_def)
  ultimately show "k \<le> Day t" by simp
qed

lemma midnightsUpTo_card:
  "card {k. a < k * msPerDay - tza \<and> k * msPerDay - tza \<le> b} = nat (midnightsUpTo tza a b)"
proof -
  have "{k. a < k * msPerDay - tza \<and> k * msPerDay - tza \<le> b}
      = {Day (LocalTime tza a) + 1 .. Day (LocalTime tza b)}"
  proof (rule set_eqI)
    fix k
    have 1: "k * msPerDay - tza \<le> b \<longleftrightarrow> k \<le> Day (LocalTime tza b)"
      unfolding Day_le_iff LocalTime_def by linarith
    have 2: "a < k * msPerDay - tza \<longleftrightarrow> \<not> k \<le> Day (LocalTime tza a)"
      unfolding Day_le_iff LocalTime_def by linarith
    show "k \<in> {k. a < k * msPerDay - tza \<and> k * msPerDay - tza \<le> b}
        \<longleftrightarrow> k \<in> {Day (LocalTime tza a) + 1 .. Day (LocalTime tza b)}"
      using 1 2 by auto
  qed
  then show ?thesis by (simp add: midnightsUpTo_def)
qed




section \<open>Properties of the Aggregator\<close>

lemma sum_mapSet:
  "sum_list (map snd (mapSet m k (mapGetOr0 m k + n))) = sum_list (map snd m) + n"
  by (induction m) (auto simp add: mapGetOr0_def)

lemma keys_mapSet: "fst ` set (mapSet m k v) = insert k (fst ` set m)"
proof (induction m)
  case Nil
  then show ?case by simp
next
  case (Cons p m)
  obtain k' v' where p: "p = (k', v')" by (cases p)
  show ?case
  proof (cases "k' = k")
    case True
    then show ?thesis using p by auto
  next
    case False
    then show ?thesis using p Cons.IH by auto
  qed
qed

lemma distinct_mapSet: "distinct (map fst m) \<Longrightarrow> distinct (map fst (mapSet m k v))"
proof (induction m)
  case Nil
  then show ?case by simp
next
  case (Cons p m)
  obtain k' v' where p: "p = (k', v')" by (cases p)
  show ?case
  proof (cases "k' = k")
    case True
    then show ?thesis using p Cons.prems by auto
  next
    case False
    then show ?thesis using p Cons keys_mapSet[of m k v] by auto
  qed
qed

lemma addDuration_counts:
  "perDayCount (addDuration p a) = perDayCount a"
  "perMonthCount (addDuration p a) = perMonthCount a"
  by (simp_all add: addDuration_def Let_def)

lemma fold_addDuration_counts:
  "perDayCount (fold addDuration ps a) = perDayCount a"
  "perMonthCount (fold addDuration ps a) = perMonthCount a"
  by (induction ps arbitrary: a) (simp_all add: addDuration_counts)

lemma countDay_total:
  "sum_list (map snd (perDayCount (countDay d a))) = sum_list (map snd (perDayCount a)) + 1"
  "sum_list (map snd (perMonthCount (countDay d a))) = sum_list (map snd (perMonthCount a)) + 1"
  "distinct (map fst (perDayCount a)) \<Longrightarrow> distinct (map fst (perDayCount (countDay d a)))"
  by (simp_all add: countDay_def Let_def sum_mapSet distinct_mapSet)

lemma fold_countDay_total:
  "sum_list (map snd (perDayCount (fold countDay ds a)))
     = sum_list (map snd (perDayCount a)) + int (length ds)"
  "sum_list (map snd (perMonthCount (fold countDay ds a)))
     = sum_list (map snd (perMonthCount a)) + int (length ds)"
  by (induction ds arbitrary: a) (simp_all add: countDay_total)

lemma fold_countDay_distinct:
  "distinct (map fst (perDayCount a)) \<Longrightarrow> distinct (map fst (perDayCount (fold countDay ds a)))"
  by (induction ds arbitrary: a) (simp_all add: countDay_total)

lemma setOf_fold_length:
  "length acc \<le> length (fold (\<lambda>x acc. if x \<in> set acc then acc else acc @ [x]) xs acc)"
proof (induction xs arbitrary: acc)
  case Nil
  then show ?case by simp
next
  case (Cons x xs)
  show ?case
    using Cons.IH[of acc] Cons.IH[of "acc @ [x]"] by auto
qed

lemma setOf_nonempty: "xs \<noteq> [] \<Longrightarrow> 1 \<le> length (setOf xs)"
proof (cases xs)
  case Nil
  assume "xs \<noteq> []"
  then show ?thesis using Nil by simp
next
  case (Cons x ys)
  then show ?thesis
    using setOf_fold_length[of "[x]" ys] by (simp add: setOf_def)
qed

lemma splitSessionByDay_nonempty: "start s \<le> end' s \<Longrightarrow> splitSessionByDay tza s \<noteq> []"
  using splitLoop_nonempty[of "start s" "end' s" tza] by (simp add: splitSessionByDay_def)

lemma aggregateSession_start_total:
  "sum_list (map snd (perDayCount (aggregateSession tza ByStart s a)))
     = sum_list (map snd (perDayCount a)) + 1"
  by (simp add: aggregateSession_def Let_def sum_mapSet fold_addDuration_counts)

lemma aggregateSession_presence_total:
  "sum_list (map snd (perDayCount (aggregateSession tza ByPresence s a)))
     = sum_list (map snd (perDayCount a)) + int (length (setOf (map day (splitSessionByDay tza s))))"
  by (simp add: aggregateSession_def Let_def fold_countDay_total fold_addDuration_counts)

lemma aggregateSession_distinct:
  "distinct (map fst (perDayCount a))
     \<Longrightarrow> distinct (map fst (perDayCount (aggregateSession tza cb s a)))"
  by (cases cb)
     (simp_all add: aggregateSession_def Let_def fold_countDay_distinct fold_addDuration_counts
        distinct_mapSet)

lemma fold_aggregate_start_total:
  "sum_list (map snd (perDayCount (fold (aggregateSession tza ByStart) ss a)))
     = sum_list (map snd (perDayCount a)) + int (length ss)"
  by (induction ss arbitrary: a) (simp_all add: aggregateSession_start_total)

lemma fold_aggregate_presence_total:
  "\<forall>s \<in> set ss. start s \<le> end' s \<Longrightarrow>
     sum_list (map snd (perDayCount a)) + int (length ss)
       \<le> sum_list (map snd (perDayCount (fold (aggregateSession tza ByPresence) ss a)))"
proof (induction ss arbitrary: a)
  case Nil
  then show ?case by simp
next
  case (Cons s ss)
  have "1 \<le> length (setOf (map day (splitSessionByDay tza s)))"
    using Cons.prems splitSessionByDay_nonempty[of s tza] by (intro setOf_nonempty) simp
  then have "sum_list (map snd (perDayCount a)) + 1
      \<le> sum_list (map snd (perDayCount (aggregateSession tza ByPresence s a)))"
    by (simp add: aggregateSession_presence_total)
  moreover have "sum_list (map snd (perDayCount (aggregateSession tza ByPresence s a))) + int (length ss)
      \<le> sum_list (map snd (perDayCount (fold (aggregateSession tza ByPresence) ss
            (aggregateSession tza ByPresence s a))))"
    using Cons.prems by (intro Cons.IH) simp
  ultimately show ?case by simp
qed

lemma fold_aggregate_distinct:
  "distinct (map fst (perDayCount a))
     \<Longrightarrow> distinct (map fst (perDayCount (fold (aggregateSession tza cb) ss a)))"
  by (induction ss arbitrary: a) (simp_all add: aggregateSession_distinct)

text \<open>
  C8. For every list of sessions the day-level session counts, one entry for each day
  key of the map, add up to the number of sessions under the \<^verbatim>\<open>start\<close> policy. Under
  the \<^verbatim>\<open>presence\<close> policy they add up to at least the number of sessions, for sessions
  with \<open>start \<le> end\<close>, which the sessions of the Session Segmenter on sorted messages
  are (a session with \<open>start > end\<close> would have no slice and be counted nowhere).
\<close>

theorem day_counts_total:
  "sum_list (map snd (perDayCount (aggregate tza ByStart sessions))) = int (length sessions)
   \<and> ((\<forall>s \<in> set sessions. start s \<le> end' s) \<longrightarrow>
        int (length sessions) \<le> sum_list (map snd (perDayCount (aggregate tza ByPresence sessions))))
   \<and> distinct (map fst (perDayCount (aggregate tza ByStart sessions)))
   \<and> distinct (map fst (perDayCount (aggregate tza ByPresence sessions)))"
  using fold_aggregate_start_total[of tza sessions emptyAggregates]
    fold_aggregate_presence_total[of sessions emptyAggregates tza]
    fold_aggregate_distinct[of emptyAggregates tza ByStart sessions]
    fold_aggregate_distinct[of emptyAggregates tza ByPresence sessions]
  by (simp add: aggregate_def emptyAggregates_def)

text \<open>The same for the sessions the program itself builds from sorted messages.\<close>

lemma day_counts_total_of_groupSessions:
  assumes "sorted (map ts msgs)"
  shows "sum_list (map snd (perDayCount (aggregate tza ByStart (groupSessions msgs gapMin))))
           = int (length (groupSessions msgs gapMin))
    \<and> int (length (groupSessions msgs gapMin))
        \<le> sum_list (map snd (perDayCount (aggregate tza ByPresence (groupSessions msgs gapMin))))"
  using fold_aggregate_start_total[of tza "groupSessions msgs gapMin" emptyAggregates]
    fold_aggregate_presence_total[OF groupSessions_start_le_end[OF assms, of gapMin],
      of emptyAggregates tza]
  by (simp add: aggregate_def emptyAggregates_def)

lemma aggregate_across_midnight_start:
  "aggregate 0 ByStart [\<lparr>start = 1735775880000, end' = 1735776300000, count = 2\<rparr>]
     = \<lparr>perDayDur = [(js ''2025-01-01'', 120000), (js ''2025-01-02'', 300000)],
        perDayCount = [(js ''2025-01-01'', 1)],
        perMonthDur = [(js ''2025-01'', 420000)],
        perMonthCount = [(js ''2025-01'', 1)]\<rparr>"
  by code_simp

lemma aggregate_across_midnight_presence:
  "aggregate 0 ByPresence [\<lparr>start = 1735775880000, end' = 1735776300000, count = 2\<rparr>]
     = \<lparr>perDayDur = [(js ''2025-01-01'', 120000), (js ''2025-01-02'', 300000)],
        perDayCount = [(js ''2025-01-01'', 1), (js ''2025-01-02'', 1)],
        perMonthDur = [(js ''2025-01'', 420000)],
        perMonthCount = [(js ''2025-01'', 2)]\<rparr>"
  by code_simp

theorem day_counts_total_witness:
  "start \<lparr>start = 1735775880000, end' = 1735776300000, count = 2\<rparr>
     \<le> end' \<lparr>start = 1735775880000, end' = 1735776300000, count = 2\<rparr>
   \<and> sum_list (map snd (perDayCount (aggregate 0 ByStart
         [\<lparr>start = 1735775880000, end' = 1735776300000, count = 2\<rparr>]))) = 1
   \<and> sum_list (map snd (perDayCount (aggregate 0 ByPresence
         [\<lparr>start = 1735775880000, end' = 1735776300000, count = 2\<rparr>]))) = 2"
  using day_counts_total[of 0 "[\<lparr>start = 1735775880000, end' = 1735776300000, count = 2\<rparr>]"]
  by (simp add: aggregate_across_midnight_start aggregate_across_midnight_presence)

text \<open>
  Under the \<^verbatim>\<open>presence\<close> policy the month counter is incremented inside the loop over
  the distinct days of a session, once for every day: the month-level counts add up to
  the same total as the day-level counts.
\<close>

lemma presence_month_total_is_day_total:
  "sum_list (map snd (perMonthCount (fold (aggregateSession tza ByPresence) ss a)))
       - sum_list (map snd (perMonthCount a))
     = sum_list (map snd (perDayCount (fold (aggregateSession tza ByPresence) ss a)))
       - sum_list (map snd (perDayCount a))"
proof (induction ss arbitrary: a)
  case Nil
  then show ?case by simp
next
  case (Cons s ss)
  have "sum_list (map snd (perMonthCount (aggregateSession tza ByPresence s a)))
          - sum_list (map snd (perMonthCount a))
        = sum_list (map snd (perDayCount (aggregateSession tza ByPresence s a)))
          - sum_list (map snd (perDayCount a))"
    by (simp add: aggregateSession_def Let_def fold_countDay_total fold_addDuration_counts)
  then show ?case using Cons.IH[of "aggregateSession tza ByPresence s a"] by simp
qed

text \<open>
  C1 does not hold of the code. One session from 2025-01-01 23:58 to 2025-01-02 00:05
  (time zone offset 0) has slices on two days of the same month; under the \<^verbatim>\<open>presence\<close>
  policy the count of month 2025-01 becomes 2, one for each day, where the claim has 1.
\<close>

theorem presence_month_counted_per_day:
  "splitSessionByDay 0 \<lparr>start = 1735775880000, end' = 1735776300000, count = 2\<rparr>
     = [\<lparr>day = js ''2025-01-01'', ms = 120000\<rparr>, \<lparr>day = js ''2025-01-02'', ms = 300000\<rparr>]
   \<and> perMonthCount (aggregate 0 ByPresence
        [\<lparr>start = 1735775880000, end' = 1735776300000, count = 2\<rparr>]) = [(js ''2025-01'', 2)]"
proof -
  have "splitSessionByDay 0 \<lparr>start = 1735775880000, end' = 1735776300000, count = 2\<rparr>
     = [\<lparr>day = js ''2025-01-01'', ms = 120000\<rparr>, \<lparr>day = js ''2025-01-02'', ms = 300000\<rparr>]"
    by code_simp
  then show ?thesis by (simp add: aggregate_across_midnight_presence)
qed

section \<open>Properties of the Line Parser\<close>

text \<open>The zone of constant offset \<open>tza\<close> is the one the operations with \<open>tza\<close> are written in.\<close>

lemma fixedOffset_ops:
  "LocalTimeIn (fixedOffset tza) t = LocalTime tza t"
  "UTCIn (fixedOffset tza) t = UTC tza t"
  "newDateIn (fixedOffset tza) y m dt h mi s milli = newDate tza y m dt h mi s milli"
  "getFullYearIn (fixedOffset tza) t = getFullYear tza t"
  "getMonthIn (fixedOffset tza) t = getMonth tza t"
  "getDateIn (fixedOffset tza) t = getDate tza t"
  "getHoursIn (fixedOffset tza) t = getHours tza t"
  "getMinutesIn (fixedOffset tza) t = getMinutes tza t"
  by (simp_all add: fixedOffset_def LocalTimeIn_def UTCIn_def newDateIn_def LocalTime_def UTC_def
      newDate_def getFullYearIn_def getMonthIn_def getDateIn_def getHoursIn_def getMinutesIn_def
      getFullYear_def getMonth_def getDate_def getHours_def getMinutes_def)

lemma LocalTime_UTC: "LocalTime tza (UTC tza t) = t"
  by (simp add: LocalTime_def UTC_def)

text \<open>
  The date a time value reads as always exists: the day of the month is at least 1 and
  at most the number of days of the month it is read in. This holds of every time
  value, so of the local time of every zone.
\<close>

lemma DateFromTime_in_month:
  "1 \<le> DateFromTime t \<and> DateFromTime t \<le> DaysInMonth (YearFromTime t) (MonthFromTime t + 1)"
proof -
  define w where "w = DayWithinYear t"
  define l :: int where "l = (if DaysInYear (YearFromTime t) = 366 then 1 else 0)"
  have w: "0 \<le> w" "w < 365 + l"
    using DayWithinYear_bounds[of t] DaysInYear_cases[of "YearFromTime t"]
    by (auto simp add: w_def l_def)
  have l: "l = 0 \<or> l = 1" by (simp add: l_def)
  have leap: "InLeapYear t = l" by (simp add: InLeapYear_def l_def)
  have dim2: "DaysInMonth (YearFromTime t) 2 = 28 + l"
    using DaysInYear_cases[of "YearFromTime t"] by (auto simp add: DaysInMonth_def l_def)
  consider "w < 31" | "31 \<le> w \<and> w < 59 + l" | "59 + l \<le> w \<and> w < 90 + l"
    | "90 + l \<le> w \<and> w < 120 + l" | "120 + l \<le> w \<and> w < 151 + l"
    | "151 + l \<le> w \<and> w < 181 + l" | "181 + l \<le> w \<and> w < 212 + l"
    | "212 + l \<le> w \<and> w < 243 + l" | "243 + l \<le> w \<and> w < 273 + l"
    | "273 + l \<le> w \<and> w < 304 + l" | "304 + l \<le> w \<and> w < 334 + l" | "334 + l \<le> w"
    by linarith
  then show ?thesis
  proof cases
    case 1
    then have "MonthFromTime t = 0"
      by (simp add: MonthFromTime_def Let_def w_def[symmetric])
    then show ?thesis
      using 1 w by (simp add: DateFromTime_def Let_def w_def[symmetric] DaysInMonth_def)
  next
    case 2
    then have "MonthFromTime t = 1"
      using l by (auto simp add: MonthFromTime_def Let_def w_def[symmetric] leap)
    then show ?thesis
      using 2 by (simp add: DateFromTime_def Let_def w_def[symmetric] dim2)
  next
    case 3
    then have "MonthFromTime t = 2"
      using l by (auto simp add: MonthFromTime_def Let_def w_def[symmetric] leap)
    then show ?thesis
      using 3 by (simp add: DateFromTime_def Let_def w_def[symmetric] leap DaysInMonth_def)
  next
    case 4
    then have "MonthFromTime t = 3"
      using l by (auto simp add: MonthFromTime_def Let_def w_def[symmetric] leap)
    then show ?thesis
      using 4 by (simp add: DateFromTime_def Let_def w_def[symmetric] leap DaysInMonth_def)
  next
    case 5
    then have "MonthFromTime t = 4"
      using l by (auto simp add: MonthFromTime_def Let_def w_def[symmetric] leap)
    then show ?thesis
      using 5 by (simp add: DateFromTime_def Let_def w_def[symmetric] leap DaysInMonth_def)
  next
    case 6
    then have "MonthFromTime t = 5"
      using l by (auto simp add: MonthFromTime_def Let_def w_def[symmetric] leap)
    then show ?thesis
      using 6 by (simp add: DateFromTime_def Let_def w_def[symmetric] leap DaysInMonth_def)
  next
    case 7
    then have "MonthFromTime t = 6"
      using l by (auto simp add: MonthFromTime_def Let_def w_def[symmetric] leap)
    then show ?thesis
      using 7 by (simp add: DateFromTime_def Let_def w_def[symmetric] leap DaysInMonth_def)
  next
    case 8
    then have "MonthFromTime t = 7"
      using l by (auto simp add: MonthFromTime_def Let_def w_def[symmetric] leap)
    then show ?thesis
      using 8 by (simp add: DateFromTime_def Let_def w_def[symmetric] leap DaysInMonth_def)
  next
    case 9
    then have "MonthFromTime t = 8"
      using l by (auto simp add: MonthFromTime_def Let_def w_def[symmetric] leap)
    then show ?thesis
      using 9 by (simp add: DateFromTime_def Let_def w_def[symmetric] leap DaysInMonth_def)
  next
    case 10
    then have "MonthFromTime t = 9"
      using l by (auto simp add: MonthFromTime_def Let_def w_def[symmetric] leap)
    then show ?thesis
      using 10 by (simp add: DateFromTime_def Let_def w_def[symmetric] leap DaysInMonth_def)
  next
    case 11
    then have "MonthFromTime t = 10"
      using l by (auto simp add: MonthFromTime_def Let_def w_def[symmetric] leap)
    then show ?thesis
      using 11 by (simp add: DateFromTime_def Let_def w_def[symmetric] leap DaysInMonth_def)
  next
    case 12
    then have "MonthFromTime t = 11"
      using l by (auto simp add: MonthFromTime_def Let_def w_def[symmetric] leap)
    then show ?thesis
      using 12 w by (simp add: DateFromTime_def Let_def w_def[symmetric] leap DaysInMonth_def)
  qed
qed

text \<open>
  What \<^verbatim>\<open>makeStrictLocalDate\<close> returns is the date it built, and its fields read back.
\<close>

lemma makeStrictLocalDate_Some:
  assumes "makeStrictLocalDate zone y mo d hh mm = Some t"
  shows "t = newDateIn zone y (mo - 1) d hh mm 0 0
    \<and> getFullYearIn zone t = y \<and> getMonthIn zone t = mo - 1 \<and> getDateIn zone t = d
    \<and> getHoursIn zone t = hh \<and> getMinutesIn zone t = mm"
  using assms by (auto simp add: makeStrictLocalDate_def Let_def split: if_splits)

lemma makeStrictLocalDate_readback:
  "makeStrictLocalDate zone y mo d hh mm \<noteq> None
     \<longleftrightarrow> (getFullYearIn zone (newDateIn zone y (mo - 1) d hh mm 0 0) = y
        \<and> getMonthIn zone (newDateIn zone y (mo - 1) d hh mm 0 0) = mo - 1
        \<and> getDateIn zone (newDateIn zone y (mo - 1) d hh mm 0 0) = d
        \<and> getHoursIn zone (newDateIn zone y (mo - 1) d hh mm 0 0) = hh
        \<and> getMinutesIn zone (newDateIn zone y (mo - 1) d hh mm 0 0) = mm)"
  by (auto simp add: makeStrictLocalDate_def Let_def)

text \<open>
  In every time zone, a date \<^verbatim>\<open>makeStrictLocalDate\<close> accepts exists in the calendar: a
  day beyond the end of its month is never accepted.
\<close>

lemma makeStrictLocalDate_day_exists:
  assumes "makeStrictLocalDate zone y mo d hh mm = Some t"
  shows "1 \<le> d \<and> d \<le> DaysInMonth y mo"
proof -
  have f: "YearFromTime (LocalTimeIn zone t) = y \<and> MonthFromTime (LocalTimeIn zone t) = mo - 1
      \<and> DateFromTime (LocalTimeIn zone t) = d"
    using makeStrictLocalDate_Some[OF assms]
    unfolding getFullYearIn_def getMonthIn_def getDateIn_def by blast
  show ?thesis
    using DateFromTime_in_month[of "LocalTimeIn zone t"] f by simp
qed

text \<open>
  In a zone of constant offset, for fields that pass the range check, the date is
  accepted exactly when the day exists in that month of that year (and the year is not
  one of 0 to 99, which \<^verbatim>\<open>new Date\<close> reads as 1900 to 1999).
\<close>

lemma makeStrictLocalDate_iff:
  assumes "rangeOk mo d hh mm"
  shows "makeStrictLocalDate (fixedOffset tza) y mo d hh mm
           = (if d \<le> DaysInMonth y mo \<and> \<not> (0 \<le> y \<and> y \<le> 99)
              then Some (newDate tza y (mo - 1) d hh mm 0 0) else None)"
proof -
  have r: "1 \<le> mo" "mo \<le> 12" "1 \<le> d" "d \<le> 31" "0 \<le> hh" "hh \<le> 23" "0 \<le> mm" "mm \<le> 59"
    using assms by (simp_all add: rangeOk_def)
  define yr where "yr = (if 0 \<le> y \<and> y \<le> 99 then 1900 + y else y)"
  define tm where "tm = MakeTime hh mm 0 0"
  define lt where "lt = MakeDate (MakeDay yr (mo - 1) d) tm"
  have tm: "0 \<le> tm" "tm < msPerDay" using MakeTime_range[OF r(5-8)] by (simp_all add: tm_def)
  have dt: "LocalTime tza (newDate tza y (mo - 1) d hh mm 0 0) = lt"
    by (simp add: newDate_def Let_def LocalTime_UTC lt_def tm_def yr_def)
  have year: "YearFromTime lt = yr"
    unfolding lt_def by (rule fields_Year[OF r(1-4) tm])
  have month: "MonthFromTime lt = mo - 1 \<longleftrightarrow> d \<le> DaysInMonth yr mo"
    unfolding lt_def by (rule fields_Month[OF r(1-4) tm])
  have date: "d \<le> DaysInMonth yr mo \<Longrightarrow> DateFromTime lt = d"
    unfolding lt_def by (rule fields_Date[OF r(1-3) _ tm])
  have hour: "HourFromTime lt = hh"
    unfolding lt_def tm_def by (rule fields_Hour[OF r(5-8)])
  have minute: "MinFromTime lt = mm"
    unfolding lt_def tm_def by (rule fields_Min[OF r(7,8)])
  show ?thesis
  proof (cases "0 \<le> y \<and> y \<le> 99")
    case True
    then have "yr \<noteq> y" by (simp add: yr_def)
    then show ?thesis
      using True year
      by (simp add: makeStrictLocalDate_def Let_def fixedOffset_ops getFullYear_def dt)
  next
    case False
    then have "yr = y" by (simp add: yr_def)
    then show ?thesis
      using False year month date hour minute
      by (auto simp add: makeStrictLocalDate_def Let_def fixedOffset_ops getFullYear_def
          getMonth_def getDate_def getHours_def getMinutes_def dt)
  qed
qed

lemma parseInt_nonneg:
  assumes "parseInt s = Some v"
  shows "0 \<le> v"
proof -
  have step: "\<And>acc. 0 \<le> acc \<Longrightarrow> \<forall>c \<in> set ds. isDigit c
      \<Longrightarrow> 0 \<le> foldl (\<lambda>acc c. acc * 10 + (uint c - 48)) acc ds" for ds :: jsstring
  proof (induction ds)
    case Nil
    then show ?case by simp
  next
    case (Cons c ds)
    have "48 \<le> uint c" using Cons.prems(2) by (simp add: isDigit_def word_le_def)
    then have "0 \<le> acc * 10 + (uint c - 48)" using Cons.prems(1) by simp
    then show ?case using Cons.IH[of "acc * 10 + (uint c - 48)"] Cons.prems(2) by simp
  qed
  have "\<forall>c \<in> set (takeWhile isDigit s). isDigit c" by (auto dest: set_takeWhileD)
  then have "0 \<le> foldl (\<lambda>acc c. acc * 10 + (uint c - 48)) 0 (takeWhile isDigit s)"
    by (intro step) simp_all
  then show ?thesis using assms by (auto simp add: parseInt_def Let_def split: if_splits)
qed

lemma timestampFields_year:
  assumes "timestampFields m dateOrder = Some (y, mo, d, hh, mm)"
  shows "100 \<le> y"
proof -
  obtain year0 where p: "parseInt (m3 m) = Some year0"
    and y: "y = (if year0 < 100 then year0 + 2000 else year0)"
    using assms by (auto simp add: timestampFields_def Let_def split: option.splits)
  have "0 \<le> year0" using parseInt_nonneg[OF p] .
  then show ?thesis using y by auto
qed

lemma parseInt_takeWhile:
  "takeWhile isDigit s \<noteq> [] \<Longrightarrow> \<exists>y. parseInt (takeWhile isDigit s) = Some y"
  by (simp add: parseInt_def Let_def)

lemma parseInt_takeWhile2:
  "\<not> length (takeWhile isDigit s) < 2 \<Longrightarrow> \<exists>y. parseInt (takeWhile isDigit s) = Some y"
  by (rule parseInt_takeWhile) auto

lemma parseInt_two_digits: "isDigit a \<Longrightarrow> \<exists>y. parseInt [a, b] = Some y"
  by (simp add: parseInt_def Let_def)

text \<open>
  Every capture group of digits parses: on a line that matches the grammar the five
  numbers are never \<^verbatim>\<open>NaN\<close>, and the fields of the timestamp are defined.
\<close>

lemma matchLineRe_fields:
  assumes "matchLineRe line = Some m"
  shows "timestampFields m dateOrder \<noteq> None"
proof -
  have "(\<exists>y. parseInt (m1 m) = Some y) \<and> (\<exists>y. parseInt (m2 m) = Some y)
      \<and> (\<exists>y. parseInt (m3 m) = Some y) \<and> (\<exists>y. parseInt (m4 m) = Some y)
      \<and> (\<exists>y. parseInt (m5 m) = Some y)"
    using assms
    by (auto simp add: matchLineRe_def Let_def parseInt_takeWhile parseInt_takeWhile2
        parseInt_two_digits split: list.splits option.splits if_splits prod.splits)
  then show ?thesis
    by (auto simp add: timestampFields_def Let_def)
qed

lemma digits_value_bound:
  assumes "\<forall>c \<in> set ds. isDigit c" "0 \<le> acc"
  shows "foldl (\<lambda>acc c. acc * 10 + (uint c - 48)) acc ds < (acc + 1) * 10 ^ length ds"
  using assms
proof (induction ds arbitrary: acc)
  case Nil
  then show ?case by simp
next
  case (Cons c ds)
  have c: "48 \<le> uint c" "uint c \<le> 57"
    using Cons.prems(1) by (simp_all add: isDigit_def word_le_def)
  let ?a = "acc * 10 + (uint c - 48)"
  have lt: "foldl (\<lambda>acc c. acc * 10 + (uint c - 48)) ?a ds < (?a + 1) * 10 ^ length ds"
    using Cons.prems c by (intro Cons.IH) simp_all
  have "?a + 1 \<le> (acc + 1) * 10" using c by simp
  then have le: "(?a + 1) * 10 ^ length ds \<le> ((acc + 1) * 10) * 10 ^ length ds"
    by (intro mult_right_mono) simp_all
  have "foldl (\<lambda>acc c. acc * 10 + (uint c - 48)) acc (c # ds)
      = foldl (\<lambda>acc c. acc * 10 + (uint c - 48)) ?a ds" by simp
  also have "\<dots> < ((acc + 1) * 10) * 10 ^ length ds" using lt le by (rule less_le_trans)
  also have "\<dots> = (acc + 1) * 10 ^ length (c # ds)" by simp
  finally show ?case .
qed

lemma parseInt_bound:
  assumes "parseInt s = Some v" "length (takeWhile isDigit s) \<le> 4"
  shows "v \<le> 9999"
proof -
  let ?ds = "takeWhile isDigit s"
  have v: "v = foldl (\<lambda>acc c. acc * 10 + (uint c - 48)) 0 ?ds"
    using assms(1) by (auto simp add: parseInt_def Let_def split: if_splits)
  have "\<forall>c \<in> set ?ds. isDigit c" by (auto dest: set_takeWhileD)
  then have "v < 10 ^ length ?ds"
    unfolding v using digits_value_bound[of ?ds 0] by simp
  also have "(10::int) ^ length ?ds \<le> 10 ^ 4"
    using assms(2) by (intro power_increasing) simp_all
  finally show ?thesis by simp
qed

lemma matchLineRe_year_digits:
  assumes "matchLineRe line = Some m"
  shows "length (takeWhile isDigit (m3 m)) \<le> 4"
  using assms
  by (auto simp add: matchLineRe_def Let_def
      split: list.splits option.splits if_splits prod.splits)

lemma timestampFields_year_upper:
  assumes "matchLineRe line = Some m" "timestampFields m dateOrder = Some (y, mo, d, hh, mm)"
  shows "y \<le> 9999"
proof -
  obtain year0 where p: "parseInt (m3 m) = Some year0"
    and y: "y = (if year0 < 100 then year0 + 2000 else year0)"
    using assms(2) by (auto simp add: timestampFields_def Let_def split: option.splits)
  have "year0 \<le> 9999" using parseInt_bound[OF p matchLineRe_year_digits[OF assms(1)]] .
  then show ?thesis using y by auto
qed

lemma parseLine_matched:
  assumes "matchLineRe line = Some m"
    and "timestampFields m dateOrder = Some (y, mo, d, hh, mm)"
    and "rangeOk mo d hh mm"
  shows "parseLine zone line dateOrder
      = (case makeStrictLocalDate zone y mo d hh mm of
           None \<Rightarrow> None
         | Some t \<Rightarrow>
             (case splitAtColonSpace (m7 m) of
                Some (front, back) \<Rightarrow> Some \<lparr>ts = t, sender = Some (trim front), text' = back\<rparr>
              | None \<Rightarrow> Some \<lparr>ts = t, sender = None, text' = trim (m7 m)\<rparr>))"
  using assms by (simp add: parseLine_def)

lemma parseLine_ts:
  assumes "matchLineRe line = Some m"
    and "timestampFields m dateOrder = Some (y, mo, d, hh, mm)"
    and "rangeOk mo d hh mm"
    and "parseLine zone line dateOrder = Some msg"
  shows "makeStrictLocalDate zone y mo d hh mm = Some (ts msg)"
  using assms(4) unfolding parseLine_matched[OF assms(1-3)]
  by (auto split: option.splits prod.splits)

text \<open>
  The time values of the Line Parser stay far inside the range of \<^verbatim>\<open>Date\<close>
  (at most 8.64e15 ms from the epoch) in every time zone whose offset is at most a day:
  the years are between 100 and 9999. This is what allows the model to leave TimeClip out.
\<close>

lemma parseLine_within_Date_range:
  assumes "parseLine zone line dateOrder = Some msg" "\<forall>t. \<bar>zone t False\<bar> \<le> msPerDay"
  shows "\<bar>ts msg\<bar> \<le> 8640000000000000 - 2 * msPerDay"
proof -
  obtain m where m: "matchLineRe line = Some m"
    using assms(1) by (auto simp add: parseLine_def split: option.splits)
  obtain y mo d hh mm where f: "timestampFields m dateOrder = Some (y, mo, d, hh, mm)"
    using matchLineRe_fields[OF m, of dateOrder] by auto
  have "\<not> rangeOk mo d hh mm \<Longrightarrow> parseLine zone line dateOrder = None"
    by (simp add: parseLine_def m f)
  then have r: "rangeOk mo d hh mm" using assms(1) by auto
  have t: "ts msg = newDateIn zone y (mo - 1) d hh mm 0 0"
    using makeStrictLocalDate_Some[OF parseLine_ts[OF m f r assms(1)]] by simp
  have y: "100 \<le> y" "y \<le> 9999"
    using timestampFields_year[OF f] timestampFields_year_upper[OF m f] by simp_all
  have rr: "1 \<le> mo" "mo \<le> 12" "1 \<le> d" "d \<le> 31" "0 \<le> hh" "hh \<le> 23" "0 \<le> mm" "mm \<le> 59"
    using r by (simp_all add: rangeOk_def)
  define l :: int where "l = (if DaysInYear y = 366 then 1 else 0)"
  have l: "l = 0 \<or> l = 1" by (simp add: l_def)
  have ms: "0 \<le> monthStart l (mo - 1) \<and> monthStart l (mo - 1) \<le> 334 + l"
    using monthStart_bound[OF l rr(1,2)] .
  have d1: "DayFromYear 100 \<le> DayFromYear y" "DayFromYear y \<le> DayFromYear 9999"
    using y by (simp_all add: DayFromYear_mono)
  have c: "DayFromYear 100 = - 683003" "DayFromYear 9999 = 2932532"
    by (simp_all add: DayFromYear_def)
  have md: "(mo - 1) div 12 = 0" "(mo - 1) mod 12 = mo - 1" using rr(1,2) by simp_all
  have day: "MakeDay y (mo - 1) d = DayFromYear y + monthStart l (mo - 1) + d - 1"
    by (simp add: MakeDay_def md l_def)
  have tm: "0 \<le> MakeTime hh mm 0 0" "MakeTime hh mm 0 0 < msPerDay"
    using MakeTime_range[OF rr(5-8)] .
  define tl where "tl = MakeDay y (mo - 1) d * msPerDay + MakeTime hh mm 0 0"
  have nd: "ts msg = tl - zone tl False"
    using y(1) by (simp add: t newDateIn_def Let_def MakeDate_def UTCIn_def tl_def)
  have off: "\<bar>zone tl False\<bar> \<le> msPerDay" using assms(2) by simp
  have lo: "- 683003 \<le> MakeDay y (mo - 1) d" and hi: "MakeDay y (mo - 1) d \<le> 2932532 + 366"
    using day d1 c ms rr(3,4) l by auto
  have "- 683003 * msPerDay \<le> MakeDay y (mo - 1) d * msPerDay"
    "MakeDay y (mo - 1) d * msPerDay \<le> (2932532 + 366) * msPerDay"
    using lo hi by (simp_all add: msPerDay_def)
  then have "- 683003 * msPerDay \<le> tl" "tl \<le> (2932532 + 367) * msPerDay"
    using tm by (simp_all add: tl_def msPerDay_def)
  then show ?thesis
    using nd off by (simp add: msPerDay_def abs_le_iff)
qed

lemma april_31_match:
  "matchLineRe (js ''31/4/2025, 10:00 - A: hi'')
     = Some \<lparr>m1 = js ''31'', m2 = js ''4'', m3 = js ''2025'', m4 = js ''10'', m5 = js ''00'',
             m6 = None, m7 = js ''A: hi''\<rparr>"
  by code_simp

lemma april_31_fields:
  "timestampFields \<lparr>m1 = js ''31'', m2 = js ''4'', m3 = js ''2025'', m4 = js ''10'',
                     m5 = js ''00'', m6 = None, m7 = js ''A: hi''\<rparr> DMY
     = Some (2025, 4, 31, 10, 0)"
  by code_simp

lemma april_30_match:
  "matchLineRe (js ''30/4/2025, 10:00 - A: hi'')
     = Some \<lparr>m1 = js ''30'', m2 = js ''4'', m3 = js ''2025'', m4 = js ''10'', m5 = js ''00'',
             m6 = None, m7 = js ''A: hi''\<rparr>"
  by code_simp

lemma april_30_fields:
  "timestampFields \<lparr>m1 = js ''30'', m2 = js ''4'', m3 = js ''2025'', m4 = js ''10'',
                     m5 = js ''00'', m6 = None, m7 = js ''A: hi''\<rparr> DMY
     = Some (2025, 4, 30, 10, 0)"
  by code_simp

text \<open>
  Daylight saving adds a rejection of its own. In the zone \<open>easternSpring2025\<close> the wall
  clock never shows 02:30 on 2025-03-09: the date built from these fields reads back
  as 03:30, and the line is rejected although the day exists. The same line is accepted
  in the zone that stays five hours behind UTC, and 03:30 is accepted in both.
\<close>

lemma parseLine_skipped_wall_clock_time:
  "parseLine easternSpring2025 (js ''3/9/2025, 02:30 - A: hi'') MDY = None
   \<and> getHoursIn easternSpring2025 (newDateIn easternSpring2025 2025 2 9 2 30 0 0) = 3
   \<and> parseLine (fixedOffset (- 18000000)) (js ''3/9/2025, 02:30 - A: hi'') MDY
       = Some \<lparr>ts = 1741505400000, sender = Some (js ''A''), text' = js ''hi''\<rparr>
   \<and> parseLine easternSpring2025 (js ''3/9/2025, 03:30 - A: hi'') MDY
       = Some \<lparr>ts = 1741505400000, sender = Some (js ''A''), text' = js ''hi''\<rparr>"
  by code_simp

text \<open>
  C4. Take a line that matches the grammar and whose fields, as the Line Parser reads
  them under the date order, pass the range check. In every time zone:
  the parser accepts the line if and only if the date built from the fields reads back
  as those fields; if it accepts, the day exists in the month (\<open>d \<le> DaysInMonth y mo\<close>),
  so a date that would roll over into the next month is rejected; and an accepted
  message carries exactly the time value built from the fields, whose fields read back
  as given, so nothing is normalized silently. In a zone of constant offset the
  converse holds too: every date that exists is accepted.
\<close>

theorem parseLine_rejects_rollover:
  assumes "matchLineRe line = Some m"
    and "timestampFields m dateOrder = Some (y, mo, d, hh, mm)"
    and "rangeOk mo d hh mm"
  shows "((parseLine zone line dateOrder \<noteq> None)
           \<longleftrightarrow> (getFullYearIn zone (newDateIn zone y (mo - 1) d hh mm 0 0) = y
                \<and> getMonthIn zone (newDateIn zone y (mo - 1) d hh mm 0 0) = mo - 1
                \<and> getDateIn zone (newDateIn zone y (mo - 1) d hh mm 0 0) = d
                \<and> getHoursIn zone (newDateIn zone y (mo - 1) d hh mm 0 0) = hh
                \<and> getMinutesIn zone (newDateIn zone y (mo - 1) d hh mm 0 0) = mm))
    \<and> (parseLine zone line dateOrder \<noteq> None \<longrightarrow> d \<le> DaysInMonth y mo)
    \<and> (\<forall>msg. parseLine zone line dateOrder = Some msg \<longrightarrow>
          ts msg = newDateIn zone y (mo - 1) d hh mm 0 0
          \<and> getFullYearIn zone (ts msg) = y \<and> getMonthIn zone (ts msg) = mo - 1
          \<and> getDateIn zone (ts msg) = d \<and> getHoursIn zone (ts msg) = hh
          \<and> getMinutesIn zone (ts msg) = mm)
    \<and> ((parseLine (fixedOffset tza) line dateOrder \<noteq> None) \<longleftrightarrow> d \<le> DaysInMonth y mo)"
proof -
  have y100: "\<not> (0 \<le> y \<and> y \<le> 99)" using timestampFields_year[OF assms(2)] by simp
  have acc: "(parseLine z line dateOrder \<noteq> None) \<longleftrightarrow> makeStrictLocalDate z y mo d hh mm \<noteq> None"
    for z
    unfolding parseLine_matched[OF assms, of z] by (simp split: option.splits prod.splits)
  have c1: "(parseLine zone line dateOrder \<noteq> None)
           \<longleftrightarrow> (getFullYearIn zone (newDateIn zone y (mo - 1) d hh mm 0 0) = y
                \<and> getMonthIn zone (newDateIn zone y (mo - 1) d hh mm 0 0) = mo - 1
                \<and> getDateIn zone (newDateIn zone y (mo - 1) d hh mm 0 0) = d
                \<and> getHoursIn zone (newDateIn zone y (mo - 1) d hh mm 0 0) = hh
                \<and> getMinutesIn zone (newDateIn zone y (mo - 1) d hh mm 0 0) = mm)"
    using acc[of zone] makeStrictLocalDate_readback[of zone y mo d hh mm] by (rule trans)
  have c2: "parseLine zone line dateOrder \<noteq> None \<longrightarrow> d \<le> DaysInMonth y mo"
  proof
    assume "parseLine zone line dateOrder \<noteq> None"
    then obtain t where "makeStrictLocalDate zone y mo d hh mm = Some t"
      using acc[of zone] by auto
    then show "d \<le> DaysInMonth y mo"
      using makeStrictLocalDate_day_exists by blast
  qed
  have c3: "\<forall>msg. parseLine zone line dateOrder = Some msg \<longrightarrow>
          ts msg = newDateIn zone y (mo - 1) d hh mm 0 0
          \<and> getFullYearIn zone (ts msg) = y \<and> getMonthIn zone (ts msg) = mo - 1
          \<and> getDateIn zone (ts msg) = d \<and> getHoursIn zone (ts msg) = hh
          \<and> getMinutesIn zone (ts msg) = mm"
  proof (intro allI impI)
    fix msg
    assume "parseLine zone line dateOrder = Some msg"
    then show "ts msg = newDateIn zone y (mo - 1) d hh mm 0 0
          \<and> getFullYearIn zone (ts msg) = y \<and> getMonthIn zone (ts msg) = mo - 1
          \<and> getDateIn zone (ts msg) = d \<and> getHoursIn zone (ts msg) = hh
          \<and> getMinutesIn zone (ts msg) = mm"
      by (intro makeStrictLocalDate_Some parseLine_ts[OF assms])
  qed
  have c4: "(parseLine (fixedOffset tza) line dateOrder \<noteq> None) \<longleftrightarrow> d \<le> DaysInMonth y mo"
    unfolding acc[of "fixedOffset tza"] makeStrictLocalDate_iff[OF assms(3), of tza y]
    using y100 by simp
  show ?thesis
    by (intro conjI) (rule c1, rule c2, rule c3, rule c4)
qed

theorem parseLine_rejects_rollover_witness:
  "matchLineRe (js ''31/4/2025, 10:00 - A: hi'')
     = Some \<lparr>m1 = js ''31'', m2 = js ''4'', m3 = js ''2025'', m4 = js ''10'', m5 = js ''00'',
             m6 = None, m7 = js ''A: hi''\<rparr>
   \<and> timestampFields \<lparr>m1 = js ''31'', m2 = js ''4'', m3 = js ''2025'', m4 = js ''10'',
                     m5 = js ''00'', m6 = None, m7 = js ''A: hi''\<rparr> DMY
     = Some (2025, 4, 31, 10, 0)
   \<and> rangeOk 4 31 10 0
   \<and> DaysInMonth 2025 4 = 30
   \<and> parseLine easternSpring2025 (js ''31/4/2025, 10:00 - A: hi'') DMY = None
   \<and> parseLine (fixedOffset 0) (js ''31/4/2025, 10:00 - A: hi'') DMY = None
   \<and> parseLine (fixedOffset 0) (js ''30/4/2025, 10:00 - A: hi'') DMY \<noteq> None"
proof -
  have dim: "DaysInMonth 2025 4 = 30" by (simp add: DaysInMonth_def)
  have r31: "rangeOk 4 31 10 0" and r30: "rangeOk 4 30 10 0" by (simp_all add: rangeOk_def)
  have a: "parseLine easternSpring2025 (js ''31/4/2025, 10:00 - A: hi'') DMY \<noteq> None
      \<longrightarrow> 31 \<le> DaysInMonth 2025 4"
    using parseLine_rejects_rollover[OF april_31_match april_31_fields r31,
        of easternSpring2025 0] by blast
  have b: "(parseLine (fixedOffset 0) (js ''31/4/2025, 10:00 - A: hi'') DMY \<noteq> None)
      \<longleftrightarrow> 31 \<le> DaysInMonth 2025 4"
    using parseLine_rejects_rollover[OF april_31_match april_31_fields r31,
        of easternSpring2025 0] by blast
  have c: "(parseLine (fixedOffset 0) (js ''30/4/2025, 10:00 - A: hi'') DMY \<noteq> None)
      \<longleftrightarrow> 30 \<le> DaysInMonth 2025 4"
    using parseLine_rejects_rollover[OF april_30_match april_30_fields r30,
        of easternSpring2025 0] by blast
  show ?thesis
    using a b c by (simp add: april_31_match april_31_fields r31 dim)
qed

text \<open>
  The messages \<^verbatim>\<open>parseChat\<close> hands to the Session Segmenter are sorted by timestamp, and
  it keeps at most five rejected examples.
\<close>

lemma parseChat_sorted:
  "sorted (map ts (fst (parseChat zone FORCE_MDY FORCE_DMY allLines)))"
  by (simp add: parseChat_def Let_def)

lemma parseChatStep_rejected: "length (snd acc) \<le> 5 \<Longrightarrow> length (snd (parseChatStep zone order raw acc)) \<le> 5"
  by (auto simp add: parseChatStep_def Let_def split: option.splits)

lemma parseChat_rejected:
  "length (snd (snd (parseChat zone FORCE_MDY FORCE_DMY allLines))) \<le> 5"
proof -
  have "length (snd acc) \<le> 5 \<Longrightarrow> length (snd (fold (parseChatStep zone order) ls acc)) \<le> 5"
    for order ls acc
    by (induction ls arbitrary: acc) (simp_all add: parseChatStep_rejected)
  then show ?thesis by (simp add: parseChat_def Let_def)
qed

lemma parseChat_april_31:
  "parseChat (fixedOffset 0) False True [js ''31/4/2025, 10:00 - A: hi'']
     = ([], DMY, [js ''31/4/2025, 10:00 - A: hi''])"
  by code_simp

section \<open>Properties of the Date-Order Detector\<close>

lemma fold_castVote:
  "fold castVote lines (x, y)
     = (x + int (length (filter votesForMDY lines)), y + int (length (filter votesForDMY lines)))"
proof (induction lines arbitrary: x y)
  case Nil
  then show ?case by simp
next
  case (Cons raw lines)
  have "castVote raw (x, y)
      = (x + (if votesForMDY raw then 1 else 0), y + (if votesForDMY raw then 1 else 0))"
    by (auto simp add: castVote_def votesForMDY_def votesForDMY_def split: option.splits)
  then show ?case by (simp add: Cons.IH)
qed

lemma isDash_not_space: "isDash d \<Longrightarrow> \<not> isSpace d"
  by (auto simp add: isDash_def isSpace_def)

lemma dropWhile_spaces_then:
  "list_all isSpace ws \<Longrightarrow> \<not> isSpace d \<Longrightarrow> dropWhile isSpace (ws @ d # rest) = d # rest"
  by (induction ws) simp_all

lemma ampmAt_iff:
  "ampmAt l \<longleftrightarrow>
     (\<exists>w marker ws d w2 post.
        l = w # marker @ ws @ d # w2 # post
        \<and> isSpace w \<and> (marker = js ''AM'' \<or> marker = js ''PM'')
        \<and> list_all isSpace ws \<and> isDash d \<and> isSpace w2)"
proof
  assume "ampmAt l"
  then obtain w a b rest d w2 post where l: "l = w # a # b # rest"
    and w: "isSpace w" and ab: "(a = 0x41 \<or> a = 0x50) \<and> b = 0x4D"
    and dr: "dropWhile isSpace rest = d # w2 # post" and d: "isDash d" and w2: "isSpace w2"
    by (auto simp add: ampmAt_def split: list.splits)
  have rest: "rest = takeWhile isSpace rest @ d # w2 # post"
    using takeWhile_dropWhile_id[of isSpace rest] dr by simp
  have sp: "list_all isSpace (takeWhile isSpace rest)"
    by (auto simp add: list_all_iff dest: set_takeWhileD)
  have m: "[a, b] = js ''AM'' \<or> [a, b] = js ''PM''" using ab by (auto simp add: js_def)
  have "l = w # [a, b] @ takeWhile isSpace rest @ d # w2 # post" using l rest by simp
  then show "\<exists>w marker ws d w2 post.
        l = w # marker @ ws @ d # w2 # post
        \<and> isSpace w \<and> (marker = js ''AM'' \<or> marker = js ''PM'')
        \<and> list_all isSpace ws \<and> isDash d \<and> isSpace w2"
    using w m sp d w2 by blast
next
  assume "\<exists>w marker ws d w2 post.
        l = w # marker @ ws @ d # w2 # post
        \<and> isSpace w \<and> (marker = js ''AM'' \<or> marker = js ''PM'')
        \<and> list_all isSpace ws \<and> isDash d \<and> isSpace w2"
  then obtain w marker ws d w2 post where l: "l = w # marker @ ws @ d # w2 # post"
    and w: "isSpace w" and m: "marker = js ''AM'' \<or> marker = js ''PM''"
    and sp: "list_all isSpace ws" and d: "isDash d" and w2: "isSpace w2"
    by blast
  have dr: "dropWhile isSpace (ws @ d # w2 # post) = d # w2 # post"
    using sp d by (intro dropWhile_spaces_then isDash_not_space)
  show "ampmAt l"
    using m w d w2 dr unfolding l by (auto simp add: ampmAt_def js_def)
qed

lemma testAmPm_iff_suffix: "testAmPm l \<longleftrightarrow> (\<exists>pre suffix. l = pre @ suffix \<and> ampmAt suffix)"
proof (induction l)
  case Nil
  then show ?case by (simp add: ampmAt_def)
next
  case (Cons c cs)
  show ?case
  proof
    assume "testAmPm (c # cs)"
    then consider "ampmAt (c # cs)" | "testAmPm cs" by auto
    then show "\<exists>pre suffix. c # cs = pre @ suffix \<and> ampmAt suffix"
    proof cases
      case 1
      then have "c # cs = [] @ (c # cs) \<and> ampmAt (c # cs)" by simp
      then show ?thesis by blast
    next
      case 2
      then obtain pre suffix where "cs = pre @ suffix" "ampmAt suffix"
        using Cons.IH by blast
      then have "c # cs = (c # pre) @ suffix \<and> ampmAt suffix" by simp
      then show ?thesis by blast
    qed
  next
    assume "\<exists>pre suffix. c # cs = pre @ suffix \<and> ampmAt suffix"
    then obtain pre suffix where e: "c # cs = pre @ suffix" and a: "ampmAt suffix"
      by blast
    show "testAmPm (c # cs)"
    proof (cases pre)
      case Nil
      then have "suffix = c # cs" using e by simp
      then show ?thesis using a by simp
    next
      case (Cons f fs)
      then have "cs = fs @ suffix" using e by simp
      then have "testAmPm cs" using a Cons.IH by blast
      then show ?thesis by simp
    qed
  qed
qed

lemma testAmPm_iff: "testAmPm l \<longleftrightarrow> spacedAmPmBeforeDash l"
proof
  assume "testAmPm l"
  then obtain pre suffix where l: "l = pre @ suffix" and a: "ampmAt suffix"
    using testAmPm_iff_suffix by blast
  from a obtain w marker ws d w2 post where "suffix = w # marker @ ws @ d # w2 # post"
    "isSpace w" "marker = js ''AM'' \<or> marker = js ''PM''" "list_all isSpace ws" "isDash d"
    "isSpace w2"
    using ampmAt_iff by blast
  then show "spacedAmPmBeforeDash l"
    unfolding spacedAmPmBeforeDash_def l by blast
next
  assume "spacedAmPmBeforeDash l"
  then obtain pre w marker ws d w2 post where l: "l = pre @ w # marker @ ws @ d # w2 # post"
    and p: "isSpace w" "marker = js ''AM'' \<or> marker = js ''PM''" "list_all isSpace ws"
      "isDash d" "isSpace w2"
    unfolding spacedAmPmBeforeDash_def by blast
  have "ampmAt (w # marker @ ws @ d # w2 # post)"
    using p ampmAt_iff by blast
  then show "testAmPm l"
    using l testAmPm_iff_suffix by blast
qed

lemma list_ex_testAmPm: "list_ex testAmPm lines \<longleftrightarrow> (\<exists>l \<in> set lines. spacedAmPmBeforeDash l)"
  by (simp add: list_ex_iff testAmPm_iff)

text \<open>
  C5, as the code has it. \<^verbatim>\<open>FORCE_MDY\<close> is honoured first and \<^verbatim>\<open>FORCE_DMY\<close> second,
  whatever the lines are. Without a forced order the majority of the votes decides;
  on a tie, zero votes included, the result is MDY exactly when some raw line holds a
  white-space character, then \<open>AM\<close> or \<open>PM\<close> in capitals, then optional white space, a
  hyphen or en dash, and a white-space character after it; else DMY. Both variants of
  the function compute the same.
\<close>

theorem detectDateOrder_decides:
  "detectDateOrder FORCE_MDY FORCE_DMY lines =
     (if FORCE_MDY then MDY
      else if FORCE_DMY then DMY
      else if length (filter votesForMDY lines) > length (filter votesForDMY lines) then MDY
      else if length (filter votesForDMY lines) > length (filter votesForMDY lines) then DMY
      else if (\<exists>l \<in> set lines. spacedAmPmBeforeDash l) then MDY
      else DMY)
   \<and> detectDateOrder_ts FORCE_MDY FORCE_DMY lines = detectDateOrder FORCE_MDY FORCE_DMY lines"
  by (simp add: detectDateOrder_def detectDateOrder_ts_def Let_def fold_castVote list_ex_testAmPm)

lemma am_line_no_votes:
  "filter votesForMDY [js ''1/2/25, 10:20 AM - A: hi''] = []"
  "filter votesForDMY [js ''1/2/25, 10:20 AM - A: hi''] = []"
  by code_simp+

theorem detectDateOrder_decides_witness:
  "spacedAmPmBeforeDash (js ''1/2/25, 10:20 AM - A: hi'')
   \<and> detectDateOrder False False [js ''1/2/25, 10:20 AM - A: hi''] = MDY
   \<and> detectDateOrder True True [js ''1/2/25, 10:20 AM - A: hi''] = MDY
   \<and> detectDateOrder False True [js ''1/2/25, 10:20 AM - A: hi''] = DMY"
proof -
  have t: "testAmPm (js ''1/2/25, 10:20 AM - A: hi'')" by code_simp
  then have s: "spacedAmPmBeforeDash (js ''1/2/25, 10:20 AM - A: hi'')"
    by (simp add: testAmPm_iff)
  show ?thesis
    using s detectDateOrder_decides[of False False "[js ''1/2/25, 10:20 AM - A: hi'']",
        unfolded am_line_no_votes]
      detectDateOrder_decides[of True True "[js ''1/2/25, 10:20 AM - A: hi'']"]
      detectDateOrder_decides[of False True "[js ''1/2/25, 10:20 AM - A: hi'']"]
    by simp
qed

text \<open>
  C5 as stated fails. The single line \<^verbatim>\<open>1/2/25, 10:20AM - A: hi\<close> matches the grammar
  (the Line Parser reads it as 10:20 in the morning) and casts no vote, so the votes
  tie; it holds the marker \<open>AM\<close> immediately before the separator, so the claim gives
  MDY. The code's test also asks for white space before the marker: it returns DMY.
\<close>

theorem detectDateOrder_counterexample:
  "matchLineRe (js ''1/2/25, 10:20AM - A: hi'')
     = Some \<lparr>m1 = js ''1'', m2 = js ''2'', m3 = js ''25'', m4 = js ''10'', m5 = js ''20'',
             m6 = Some (js ''AM''), m7 = js ''A: hi''\<rparr>
   \<and> length (filter votesForMDY [js ''1/2/25, 10:20AM - A: hi''])
       = length (filter votesForDMY [js ''1/2/25, 10:20AM - A: hi''])
   \<and> markerBeforeSeparator (js ''1/2/25, 10:20AM - A: hi'')
   \<and> detectDateOrder False False [js ''1/2/25, 10:20AM - A: hi''] = DMY
   \<and> detectDateOrder False False [js ''1/2/25, 10:20AM - A: hi'']
       \<noteq> (if length (filter votesForMDY [js ''1/2/25, 10:20AM - A: hi''])
               > length (filter votesForDMY [js ''1/2/25, 10:20AM - A: hi'']) then MDY
          else if length (filter votesForDMY [js ''1/2/25, 10:20AM - A: hi''])
               > length (filter votesForMDY [js ''1/2/25, 10:20AM - A: hi'']) then DMY
          else if (\<exists>l \<in> set [js ''1/2/25, 10:20AM - A: hi'']. markerBeforeSeparator l) then MDY
          else DMY)"
proof -
  have m: "matchLineRe (js ''1/2/25, 10:20AM - A: hi'')
     = Some \<lparr>m1 = js ''1'', m2 = js ''2'', m3 = js ''25'', m4 = js ''10'', m5 = js ''20'',
             m6 = Some (js ''AM''), m7 = js ''A: hi''\<rparr>"
    by code_simp
  have v1: "filter votesForMDY [js ''1/2/25, 10:20AM - A: hi''] = []" by code_simp
  have v2: "filter votesForDMY [js ''1/2/25, 10:20AM - A: hi''] = []" by code_simp
  have "js ''1/2/25, 10:20AM - A: hi''
      = js ''1/2/25, 10:20'' @ js ''AM'' @ js '' '' @ 0x2D # js '' A: hi''"
    by (simp add: js_def)
  moreover have "list_all isSpace (js '' '')" "isDash 0x2D"
    by (simp_all add: js_def isSpace_def isDash_def)
  ultimately have mk: "markerBeforeSeparator (js ''1/2/25, 10:20AM - A: hi'')"
    unfolding markerBeforeSeparator_def by blast
  have d: "detectDateOrder False False [js ''1/2/25, 10:20AM - A: hi''] = DMY" by code_simp
  show ?thesis unfolding m v1 v2 d using mk by simp
qed

end
